theory Spec2Isabelle
  imports Main "HOL-Library.Extended_Nat" "HOL-Library.Monad_Syntax"
begin

section \<open>JavaScript strings and the regular expressions of the parser\<close>

text \<open>
  A JavaScript string is modelled as a \<^typ>\<open>string\<close>: every \<^typ>\<open>char\<close> stands for one
  UTF-16 code unit below 256 (the Latin-1 range).  On that range the white space of
  \<^verbatim>\<open>\s\<close> and of \<^verbatim>\<open>String.prototype.trim\<close> is TAB, LF, VT, FF, CR, SPACE and NBSP;
  \<^verbatim>\<open>\w\<close> is \<^verbatim>\<open>[A-Za-z0-9_]\<close>, also under the \<^verbatim>\<open>i\<close> flag (no \<^verbatim>\<open>u\<close> flag is used).
\<close>

definition is_space :: "char \<Rightarrow> bool" where
  "is_space c = (let n = (of_char c :: nat) in (9 \<le> n \<and> n \<le> 13) \<or> n = 32 \<or> n = 160)"

definition is_digit :: "char \<Rightarrow> bool" where
  "is_digit c = (let n = (of_char c :: nat) in 48 \<le> n \<and> n \<le> 57)"

definition is_alpha_us :: "char \<Rightarrow> bool" where
  "is_alpha_us c = (let n = (of_char c :: nat) in
     (97 \<le> n \<and> n \<le> 122) \<or> (65 \<le> n \<and> n \<le> 90) \<or> n = 95)"

definition is_word :: "char \<Rightarrow> bool" where
  "is_word c = (is_alpha_us c \<or> is_digit c)"

definition is_quote :: "char \<Rightarrow> bool" where
  "is_quote c = (c = CHR 0x22 \<or> c = CHR 0x27)"

definition is_line_terminator :: "char \<Rightarrow> bool" where
  "is_line_terminator c = (c = CHR 0x0A \<or> c = CHR 0x0D)"

text \<open>\<^verbatim>\<open>String.prototype.toLowerCase\<close> on Latin-1 code units.\<close>

definition toLowerChar :: "char \<Rightarrow> char" where
  "toLowerChar c = (let n = (of_char c :: nat) in
     if (65 \<le> n \<and> n \<le> 90) \<or> (192 \<le> n \<and> n \<le> 222 \<and> n \<noteq> 215)
     then char_of (n + 32) else c)"

definition toLowerCase :: "string \<Rightarrow> string" where
  "toLowerCase s = map toLowerChar s"

text \<open>
  The \<^verbatim>\<open>Canonicalize\<close> operation of the \<^verbatim>\<open>i\<close> flag (without \<^verbatim>\<open>u\<close>): the upper-case form
  when it is one code unit and does not map a non-ASCII unit into ASCII.  The result is a
  code point, which for \<^verbatim>\<open>0xFF\<close> and \<^verbatim>\<open>0xB5\<close> lies beyond Latin-1.
\<close>

definition canonicalize :: "char \<Rightarrow> nat" where
  "canonicalize c = (let n = (of_char c :: nat) in
     if (97 \<le> n \<and> n \<le> 122) \<or> (224 \<le> n \<and> n \<le> 254 \<and> n \<noteq> 247) then n - 32
     else if n = 255 then 376
     else if n = 181 then 924
     else n)"

definition js_trim :: "string \<Rightarrow> string" where
  "js_trim s = rev (dropWhile is_space (rev (dropWhile is_space s)))"

definition startsWith :: "string \<Rightarrow> string \<Rightarrow> bool" where
  "startsWith s p = (take (length p) s = p)"

text \<open>\<^verbatim>\<open>s.split(c)\<close> for a one-character separator: never the empty list.\<close>

fun split_on :: "char \<Rightarrow> string \<Rightarrow> string list" where
  "split_on sep [] = [[]]"
| "split_on sep (c # cs) =
     (if c = sep then [] # split_on sep cs
      else (case split_on sep cs of
              [] \<Rightarrow> [[c]]
            | p # ps \<Rightarrow> (c # p) # ps))"

subsection \<open>Pieces of a match\<close>

text \<open>
  Each matcher consumes a prefix of its input and returns the captures with the rest, or
  \<open>None\<close>.  Every pattern of the parser is anchored with \<^verbatim>\<open>^\<close> and each greedy or lazy
  quantifier in it is followed by a character outside the class it repeats, so the
  backtracking search of the engine has one possible match, which these functions compute.
\<close>

definition skip_ws :: "string \<Rightarrow> string" where
  "skip_ws s = dropWhile is_space s"

definition skip_ws1 :: "string \<Rightarrow> string option" where
  "skip_ws1 s = (case s of [] \<Rightarrow> None
                 | c # cs \<Rightarrow> if is_space c then Some (dropWhile is_space cs) else None)"

definition expect :: "char \<Rightarrow> string \<Rightarrow> string option" where
  "expect x s = (case s of [] \<Rightarrow> None | c # cs \<Rightarrow> if c = x then Some cs else None)"

text \<open>A literal piece of a pattern under the \<^verbatim>\<open>i\<close> flag.\<close>

fun match_ci :: "string \<Rightarrow> string \<Rightarrow> string option" where
  "match_ci [] s = Some s"
| "match_ci (p # ps) [] = None"
| "match_ci (p # ps) (c # cs) =
     (if canonicalize p = canonicalize c then match_ci ps cs else None)"

text \<open>A literal piece of a pattern without the \<^verbatim>\<open>i\<close> flag is not needed: the only
  case-sensitive pattern, the call pattern, has no literal letters.\<close>

text \<open>\<^verbatim>\<open>(\w+)\<close>\<close>

definition word1 :: "string \<Rightarrow> (string \<times> string) option" where
  "word1 s = (if takeWhile is_word s = [] then None
              else Some (takeWhile is_word s, dropWhile is_word s))"

text \<open>\<^verbatim>\<open>(\$[a-zA-Z_]\w*)\<close>\<close>

definition match_variable :: "string \<Rightarrow> (string \<times> string) option" where
  "match_variable s = (case s of
       d # c # cs \<Rightarrow>
         if d = CHR ''$'' \<and> is_alpha_us c
         then Some (d # c # takeWhile is_word cs, dropWhile is_word cs)
         else None
     | _ \<Rightarrow> None)"

text \<open>\<^verbatim>\<open>\((.*?)\)\<close>: the lazy group ends at the first closing parenthesis, and the dot
  matches no line terminator.\<close>

definition paren_group :: "string \<Rightarrow> (string \<times> string) option" where
  "paren_group s = (case s of
       [] \<Rightarrow> None
     | c # cs \<Rightarrow>
         if c = CHR ''(''
         then (let inner = takeWhile (\<lambda>x. x \<noteq> CHR '')'') cs;
                   rest = dropWhile (\<lambda>x. x \<noteq> CHR '')'') cs
               in if rest \<noteq> [] \<and> list_all (\<lambda>x. \<not> is_line_terminator x) inner
                  then Some (inner, tl rest) else None)
         else None)"

text \<open>\<^verbatim>\<open>\[["']([^"']+)["']\]\<close>: one quoted key in brackets; the two quotes need not be
  the same.\<close>

definition bracket_key :: "string \<Rightarrow> (string \<times> string) option" where
  "bracket_key s = (case s of
       b # q # r \<Rightarrow>
         if b = CHR ''['' \<and> is_quote q
         then (let k = takeWhile (\<lambda>x. \<not> is_quote x) r
               in if k = [] then None
                  else (case dropWhile (\<lambda>x. \<not> is_quote x) r of
                          q' # c # r' \<Rightarrow> if c = CHR '']'' then Some (k, r') else None
                        | _ \<Rightarrow> None))
         else None
     | _ \<Rightarrow> None)"

lemma bracket_key_shorter: "bracket_key s = Some (k, r) \<Longrightarrow> length r < length s"
proof -
  assume a: "bracket_key s = Some (k, r)"
  then obtain b q t where s: "s = b # q # t"
    by (cases s; cases "tl s") (auto simp: bracket_key_def)
  let ?d = "dropWhile (\<lambda>x. \<not> is_quote x) t"
  from a s obtain q' c where d: "?d = q' # c # r"
    by (auto simp: bracket_key_def Let_def split: if_splits list.splits)
  have "length ?d \<le> length t" by (rule length_dropWhile_le)
  with d s show ?thesis by simp
qed

text \<open>\<^verbatim>\<open>(?:\[["']([^"']+)["']\])*\<close>, greedy: the keys of the groups and the rest.\<close>

function bracket_chain :: "string \<Rightarrow> string list \<times> string" where
  "bracket_chain s = (case bracket_key s of
       None \<Rightarrow> ([], s)
     | Some (k, r) \<Rightarrow> (case bracket_chain r of (ks, r') \<Rightarrow> (k # ks, r')))"
  by pat_completeness auto
termination
  by (relation "measure length") (auto dest: bracket_key_shorter)

declare bracket_chain.simps [simp del]

text \<open>
  The loop \<^verbatim>\<open>while ((keyMatch = keyPattern.exec(keyChain)) !== null)\<close> with the global
  pattern \<^verbatim>\<open>/\[["']([^"']+)["']\]/g\<close>: the search for the next match starts where the last
  one ended and moves on by one character where none starts.
\<close>

function keyPattern_exec_all :: "string \<Rightarrow> string list" where
  "keyPattern_exec_all s = (case s of
       [] \<Rightarrow> []
     | c # cs \<Rightarrow> (case bracket_key s of
                    Some (k, r) \<Rightarrow> k # keyPattern_exec_all r
                  | None \<Rightarrow> keyPattern_exec_all cs))"
  by pat_completeness auto
termination
  by (relation "measure length") (auto dest: bracket_key_shorter)

declare keyPattern_exec_all.simps [simp del]


lemma split_on_not_Nil: "split_on sep s \<noteq> []"
  by (induction s) (auto split: list.splits)

section \<open>The source parser (\<^verbatim>\<open>MapParser\<close>)\<close>

text \<open>
  The constructor keeps \<^verbatim>\<open>source.split('\n')\<close>; every method reads these lines only, so a
  parser object is modelled by its list of lines.  The field \<^verbatim>\<open>functions\<close> memoises
  \<^verbatim>\<open>parseFunctionBoundaries()\<close>, which is recomputed whenever the memo is empty and is a
  function of the lines alone: the model calls \<open>parseFunctionBoundaries\<close> where the source
  reads the memo.
\<close>

definition MapParser :: "string \<Rightarrow> string list" where
  "MapParser source = split_on (CHR 0x0A) source"

record map_declaration =
  decl_name :: string
  decl_scope :: string
  decl_line :: nat

datatype key_notation = Dot | Bracket

record assignment =
  a_key :: string
  a_line :: nat
  a_notation :: key_notation
  a_nested :: "string list"
  a_isDynamic :: bool

record func =
  f_name :: string
  f_startLine :: nat
  f_endLine :: nat
  f_parameters :: "string list"

text \<open>\<^verbatim>\<open>line.trim().startsWith(';')\<close>\<close>

definition is_comment :: "string \<Rightarrow> bool" where
  "is_comment line = startsWith (js_trim line) '';''"

subsection \<open>\<^verbatim>\<open>parseMapDeclarations\<close>\<close>

text \<open>\<^verbatim>\<open>(Local|Global|Dim|Static)\<close> under the \<^verbatim>\<open>i\<close> flag: the matched text and the rest.\<close>

definition match_keyword :: "string \<Rightarrow> (string \<times> string) option" where
  "match_keyword s =
     (if match_ci ''Local'' s \<noteq> None then Some (take 5 s, drop 5 s)
      else if match_ci ''Global'' s \<noteq> None then Some (take 6 s, drop 6 s)
      else if match_ci ''Dim'' s \<noteq> None then Some (take 3 s, drop 3 s)
      else if match_ci ''Static'' s \<noteq> None then Some (take 6 s, drop 6 s)
      else None)"

text \<open>\<^verbatim>\<open>/^\s*(Local|Global|Dim|Static)\s+(\$[a-zA-Z_]\w*)\s*\[\s*\]/i\<close>: the captures
  \<^verbatim>\<open>(match[1], match[2])\<close>.\<close>

definition mapDeclPattern :: "string \<Rightarrow> (string \<times> string) option" where
  "mapDeclPattern line = do {
     (kw, r1) \<leftarrow> match_keyword (skip_ws line);
     r2 \<leftarrow> skip_ws1 r1;
     (nm, r3) \<leftarrow> match_variable r2;
     r4 \<leftarrow> expect (CHR ''['') (skip_ws r3);
     _ \<leftarrow> expect (CHR '']'') (skip_ws r4);
     Some (kw, nm)
   }"

definition decl_of_line :: "nat \<times> string \<Rightarrow> map_declaration option" where
  "decl_of_line = (\<lambda>(index, line).
     if is_comment line then None
     else map_option (\<lambda>(kw, nm). \<lparr>decl_name = nm, decl_scope = kw, decl_line = index\<rparr>)
            (mapDeclPattern line))"

definition parseMapDeclarations :: "string list \<Rightarrow> map_declaration list" where
  "parseMapDeclarations lines = List.map_filter decl_of_line (List.enumerate 0 lines)"

subsection \<open>\<^verbatim>\<open>parseFunctionBoundaries\<close> and \<^verbatim>\<open>getFunctionAtLine\<close>\<close>

text \<open>\<^verbatim>\<open>/^\s*Func\s+(\w+)\s*\((.*?)\)/i\<close>\<close>

definition funcStartPattern :: "string \<Rightarrow> (string \<times> string) option" where
  "funcStartPattern line = do {
     r1 \<leftarrow> match_ci ''Func'' (skip_ws line);
     r2 \<leftarrow> skip_ws1 r1;
     (nm, r3) \<leftarrow> word1 r2;
     (params, _) \<leftarrow> paren_group (skip_ws r3);
     Some (nm, params)
   }"

text \<open>\<^verbatim>\<open>/^\s*EndFunc/i\<close>\<close>

definition funcEndPattern :: "string \<Rightarrow> bool" where
  "funcEndPattern line = (match_ci ''EndFunc'' (skip_ws line) \<noteq> None)"

text \<open>\<^verbatim>\<open>paramsStr ? paramsStr.split(',').map(p => p.trim().split('=')[0].trim()) : []\<close>\<close>

definition parse_parameters :: "string \<Rightarrow> string list" where
  "parse_parameters raw =
     (let paramsStr = js_trim raw
      in if paramsStr = [] then []
         else map (\<lambda>p. js_trim (hd (split_on (CHR ''='') (js_trim p))))
                (split_on (CHR '','') paramsStr))"

text \<open>
  One line of the scan.  The state is the open function \<^verbatim>\<open>currentFunc\<close> (its name, start
  line and parameters; its \<^verbatim>\<open>endLine\<close> is still \<^verbatim>\<open>-1\<close>) and the functions pushed so far.
\<close>

definition boundary_step ::
  "nat \<times> string \<Rightarrow> (string \<times> nat \<times> string list) option \<times> func list
     \<Rightarrow> (string \<times> nat \<times> string list) option \<times> func list" where
  "boundary_step = (\<lambda>(index, line) (currentFunc, functions).
     case funcStartPattern line of
       Some (nm, params) \<Rightarrow> (Some (nm, index, parse_parameters params), functions)
     | None \<Rightarrow>
         (case currentFunc of
            Some (nm, start, ps) \<Rightarrow>
              if funcEndPattern line
              then (None, functions @
                      [\<lparr>f_name = nm, f_startLine = start, f_endLine = index, f_parameters = ps\<rparr>])
              else (currentFunc, functions)
          | None \<Rightarrow> (currentFunc, functions)))"

definition parseFunctionBoundaries :: "string list \<Rightarrow> func list" where
  "parseFunctionBoundaries lines = snd (fold boundary_step (List.enumerate 0 lines) (None, []))"

text \<open>The argument is a line number or \<^verbatim>\<open>Infinity\<close>.\<close>

definition getFunctionAtLine :: "string list \<Rightarrow> enat \<Rightarrow> func option" where
  "getFunctionAtLine lines line =
     find (\<lambda>func. enat (f_startLine func) \<le> line \<and> line \<le> enat (f_endLine func))
       (parseFunctionBoundaries lines)"

subsection \<open>\<^verbatim>\<open>parseKeyAssignments\<close>\<close>

text \<open>
  The patterns of the assignments are built with \<^verbatim>\<open>new RegExp\<close> from the name, in which only
  \<^verbatim>\<open>$\<close> is escaped.  A name is literal when none of its characters is pattern syntax and it
  does not start with white space; the pattern then matches the name as it is, letter case
  apart.  For any other name the constructor reads the name as pattern syntax (and may throw
  a \<^verbatim>\<open>SyntaxError\<close>): the model does not follow it there and returns \<open>PatternNotLiteral\<close>.
  \<open>TypeError\<close> is the exception of a property read on \<^verbatim>\<open>undefined\<close>.
\<close>

datatype error = PatternNotLiteral | TypeError

definition literal_char :: "char \<Rightarrow> bool" where
  "literal_char c = (c \<notin> set [CHR 0x5C, CHR ''^'', CHR ''.'', CHR ''*'', CHR ''+'', CHR ''?'',
      CHR ''('', CHR '')'', CHR ''['', CHR '']'', CHR ''{'', CHR ''}'', CHR ''|''])"

definition literal_name :: "string \<Rightarrow> bool" where
  "literal_name nm = (list_all literal_char nm \<and> (case nm of [] \<Rightarrow> True | c # _ \<Rightarrow> \<not> is_space c))"

text \<open>\<^verbatim>\<open>^\s*NAME\<close>\<close>

definition match_name :: "string \<Rightarrow> string \<Rightarrow> string option" where
  "match_name nm line = match_ci nm (skip_ws line)"

text \<open>\<^verbatim>\<open>^\s*NAME((?:\[["']([^"']+)["']\])+)\s*=\<close>: the capture \<^verbatim>\<open>match[1]\<close>, the text of
  the chain.\<close>

definition nestedPattern :: "string \<Rightarrow> string \<Rightarrow> string option" where
  "nestedPattern nm line = do {
     r \<leftarrow> match_name nm line;
     (case bracket_chain r of
        (ks, r') \<Rightarrow>
          if ks = [] then None
          else do {
            _ \<leftarrow> expect (CHR ''='') (skip_ws r');
            Some (take (length r - length r') r)
          })
   }"

definition parseNestedKeyStructure :: "string \<Rightarrow> string \<Rightarrow> string list" where
  "parseNestedKeyStructure line mapName =
     (case nestedPattern mapName line of
        None \<Rightarrow> []
      | Some keyChain \<Rightarrow>
          (let keys = keyPattern_exec_all keyChain
           in if length keys > 1 then keys else []))"

text \<open>\<^verbatim>\<open>^\s*NAME\[(\$[a-zA-Z_]\w*)\]\s*=\<close>\<close>

definition dynamicPattern :: "string \<Rightarrow> string \<Rightarrow> string option" where
  "dynamicPattern nm line = do {
     r1 \<leftarrow> match_name nm line;
     r2 \<leftarrow> expect (CHR ''['') r1;
     (v, r3) \<leftarrow> match_variable r2;
     r4 \<leftarrow> expect (CHR '']'') r3;
     _ \<leftarrow> expect (CHR ''='') (skip_ws r4);
     Some v
   }"

definition parseDynamicKeysFromLine :: "string \<Rightarrow> string \<Rightarrow> string list" where
  "parseDynamicKeysFromLine line mapName =
     (case dynamicPattern mapName line of None \<Rightarrow> [] | Some v \<Rightarrow> [v])"

text \<open>\<^verbatim>\<open>^\s*NAME\.(\w+)\s*=\<close>\<close>

definition dotPattern :: "string \<Rightarrow> string \<Rightarrow> string option" where
  "dotPattern nm line = do {
     r1 \<leftarrow> match_name nm line;
     r2 \<leftarrow> expect (CHR ''.'') r1;
     (k, r3) \<leftarrow> word1 r2;
     _ \<leftarrow> expect (CHR ''='') (skip_ws r3);
     Some k
   }"

text \<open>\<^verbatim>\<open>^\s*NAME\[["']([^"']+)["']\]\s*=\<close>\<close>

definition bracketPattern :: "string \<Rightarrow> string \<Rightarrow> string option" where
  "bracketPattern nm line = do {
     r1 \<leftarrow> match_name nm line;
     (k, r2) \<leftarrow> bracket_key r1;
     _ \<leftarrow> expect (CHR ''='') (skip_ws r2);
     Some k
   }"

text \<open>The body of the \<^verbatim>\<open>forEach\<close> of \<^verbatim>\<open>parseKeyAssignments\<close>: what one line pushes.\<close>

definition line_assignments :: "string \<Rightarrow> nat \<times> string \<Rightarrow> assignment list" where
  "line_assignments mapName = (\<lambda>(index, line).
     if is_comment line then []
     else let nestedKeys = parseNestedKeyStructure line mapName in
       if length nestedKeys > 0
       then [\<lparr>a_key = hd nestedKeys, a_line = index, a_notation = Bracket,
               a_nested = nestedKeys, a_isDynamic = False\<rparr>]
       else let dynamicKeys = parseDynamicKeysFromLine line mapName in
         if length dynamicKeys > 0
         then map (\<lambda>dynKey. \<lparr>a_key = dynKey, a_line = index, a_notation = Bracket,
                               a_nested = [], a_isDynamic = True\<rparr>) dynamicKeys
         else (case dotPattern mapName line of
                 Some k \<Rightarrow> [\<lparr>a_key = k, a_line = index, a_notation = Dot,
                              a_nested = [], a_isDynamic = False\<rparr>]
               | None \<Rightarrow>
                   (case bracketPattern mapName line of
                      Some k \<Rightarrow> [\<lparr>a_key = k, a_line = index, a_notation = Bracket,
                                   a_nested = [], a_isDynamic = False\<rparr>]
                    | None \<Rightarrow> [])))"

definition parseKeyAssignments :: "string list \<Rightarrow> string \<Rightarrow> error + assignment list" where
  "parseKeyAssignments lines mapName =
     (if literal_name mapName
      then Inr (concat (map (line_assignments mapName) (List.enumerate 0 lines)))
      else Inl PatternNotLiteral)"


subsection \<open>\<^verbatim>\<open>getFunctionParameterKeys\<close> and \<^verbatim>\<open>getKeysFromFunctionCalls\<close>\<close>

record parameter_key =
  pk_key :: string
  pk_line :: nat
  pk_addedInFunction :: bool

record function_key =
  fk_key :: string
  fk_addedInFunction :: bool

definition getFunctionParameterKeys ::
  "string list \<Rightarrow> string \<Rightarrow> string \<Rightarrow> error + parameter_key list" where
  "getFunctionParameterKeys lines functionName parameterName =
     (case find (\<lambda>f. f_name f = functionName) (parseFunctionBoundaries lines) of
        None \<Rightarrow> Inr []
      | Some func \<Rightarrow>
          if parameterName \<notin> set (f_parameters func) then Inr []
          else (case parseKeyAssignments lines parameterName of
                  Inl e \<Rightarrow> Inl e
                | Inr assignments \<Rightarrow>
                    Inr (map (\<lambda>a. \<lparr>pk_key = a_key a, pk_line = a_line a,
                                     pk_addedInFunction = True\<rparr>)
                           (filter (\<lambda>a. f_startLine func \<le> a_line a \<and> a_line a \<le> f_endLine func)
                              assignments))))"

text \<open>\<^verbatim>\<open>/^\s*(\w+)\s*\((.*?)\)/\<close>\<close>

definition functionCallPattern :: "string \<Rightarrow> (string \<times> string) option" where
  "functionCallPattern line = do {
     (fn, r1) \<leftarrow> word1 (skip_ws line);
     (inner, _) \<leftarrow> paren_group (skip_ws r1);
     Some (fn, inner)
   }"

text \<open>\<^verbatim>\<open>Array.prototype.indexOf\<close>: \<open>None\<close> stands for \<^verbatim>\<open>-1\<close>.\<close>

fun indexOf :: "'a list \<Rightarrow> 'a \<Rightarrow> nat option" where
  "indexOf [] x = None"
| "indexOf (y # ys) x = (if y = x then Some 0 else map_option Suc (indexOf ys x))"

text \<open>A \<^verbatim>\<open>forEach\<close> whose body may throw: the first exception ends the loop.\<close>

fun fold_err :: "('a \<Rightarrow> 's \<Rightarrow> error + 's) \<Rightarrow> 'a list \<Rightarrow> 's \<Rightarrow> error + 's" where
  "fold_err f [] s = Inr s"
| "fold_err f (x # xs) s = (case f x s of Inl e \<Rightarrow> Inl e | Inr s' \<Rightarrow> fold_err f xs s')"

text \<open>The state of the loop is \<^verbatim>\<open>keys\<close> with the set \<^verbatim>\<open>seenKeys\<close> (in insertion order).\<close>

definition add_function_key ::
  "parameter_key \<Rightarrow> function_key list \<times> string list \<Rightarrow> function_key list \<times> string list" where
  "add_function_key k = (\<lambda>(keys, seenKeys).
     if pk_key k \<in> set seenKeys then (keys, seenKeys)
     else (keys @ [\<lparr>fk_key = pk_key k, fk_addedInFunction = True\<rparr>], seenKeys @ [pk_key k]))"

definition call_keys_step ::
  "string list \<Rightarrow> string \<Rightarrow> enat \<Rightarrow> nat \<times> string
     \<Rightarrow> function_key list \<times> string list \<Rightarrow> error + (function_key list \<times> string list)" where
  "call_keys_step lines mapName targetLine = (\<lambda>(index, line) st.
     if enat index \<ge> targetLine then Inr st
     else (case functionCallPattern line of
        None \<Rightarrow> Inr st
      | Some (funcName, argsStr) \<Rightarrow>
          (let args = map js_trim (split_on (CHR '','') argsStr)
           in case indexOf args mapName of
                None \<Rightarrow> Inr st
              | Some argIndex \<Rightarrow>
                  (case find (\<lambda>f. f_name f = funcName) (parseFunctionBoundaries lines) of
                     None \<Rightarrow> Inr st
                   | Some func \<Rightarrow>
                       if argIndex \<ge> length (f_parameters func) then Inr st
                       else (case getFunctionParameterKeys lines funcName
                                    (f_parameters func ! argIndex) of
                               Inl e \<Rightarrow> Inl e
                             | Inr paramKeys \<Rightarrow> Inr (fold add_function_key paramKeys st))))))"

definition getKeysFromFunctionCalls ::
  "string list \<Rightarrow> string \<Rightarrow> enat \<Rightarrow> error + function_key list" where
  "getKeysFromFunctionCalls lines mapName targetLine =
     (case fold_err (call_keys_step lines mapName targetLine) (List.enumerate 0 lines) ([], []) of
        Inl e \<Rightarrow> Inl e
      | Inr (keys, seenKeys) \<Rightarrow> Inr keys)"

subsection \<open>\<^verbatim>\<open>getKeysForMapAtLine\<close>\<close>

record map_keys =
  directKeys :: "string list"
  functionKeys :: "function_key list"

text \<open>
  The body of the loop over the declarations.  The state is \<^verbatim>\<open>closestDecl\<close> (\<open>None\<close> is
  \<^verbatim>\<open>null\<close>) with \<^verbatim>\<open>closestDistance\<close>; the target line is a line number or \<^verbatim>\<open>Infinity\<close>.
\<close>

definition closest_step ::
  "string list \<Rightarrow> string \<Rightarrow> enat \<Rightarrow> map_declaration
     \<Rightarrow> map_declaration option \<times> enat \<Rightarrow> map_declaration option \<times> enat" where
  "closest_step lines mapName targetLine decl = (\<lambda>(closestDecl, closestDistance).
     if toLowerCase (decl_name decl) \<noteq> toLowerCase mapName then (closestDecl, closestDistance)
     else if enat (decl_line decl) > targetLine then (closestDecl, closestDistance)
     else
       (let declFunc = getFunctionAtLine lines (enat (decl_line decl));
            distance = targetLine - enat (decl_line decl);
            closer = (if distance \<le> closestDistance then (Some decl, distance)
                      else (closestDecl, closestDistance))
        in case getFunctionAtLine lines targetLine of
             Some currentFunc \<Rightarrow>
               (case declFunc of
                  Some df \<Rightarrow>
                    if f_name df = f_name currentFunc then closer
                    else (closestDecl, closestDistance)
                | None \<Rightarrow>
                    if toLowerCase (decl_scope decl) = ''global''
                    then (case closestDecl of
                            None \<Rightarrow> closer
                          | Some c \<Rightarrow>
                              if toLowerCase (decl_scope c) \<noteq> ''local'' then closer
                              else (closestDecl, closestDistance))
                    else (closestDecl, closestDistance))
           | None \<Rightarrow>
               (case declFunc of
                  None \<Rightarrow> closer
                | Some df \<Rightarrow> (closestDecl, closestDistance))))"

definition closestDeclaration :: "string list \<Rightarrow> string \<Rightarrow> enat \<Rightarrow> map_declaration option" where
  "closestDeclaration lines mapName targetLine =
     fst (fold (closest_step lines mapName targetLine) (parseMapDeclarations lines) (None, \<infinity>))"

text \<open>\<^verbatim>\<open>Set.prototype.add\<close> on a set kept in insertion order, as \<^verbatim>\<open>Array.from\<close> reads it.\<close>

definition set_add :: "'a list \<Rightarrow> 'a \<Rightarrow> 'a list" where
  "set_add xs x = (if x \<in> set xs then xs else xs @ [x])"

definition valid_key_step ::
  "string list \<Rightarrow> enat \<Rightarrow> map_declaration \<Rightarrow> assignment \<Rightarrow> string list \<Rightarrow> string list" where
  "valid_key_step lines targetLine closestDecl assignment validKeys =
     (if enat (a_line assignment) \<ge> targetLine then validKeys
      else
        (let assignFunc = getFunctionAtLine lines (enat (a_line assignment))
         in case getFunctionAtLine lines targetLine of
              Some currentFunc \<Rightarrow>
                (case assignFunc of
                   Some af \<Rightarrow>
                     if f_name af = f_name currentFunc then set_add validKeys (a_key assignment)
                     else validKeys
                 | None \<Rightarrow>
                     if toLowerCase (decl_scope closestDecl) = ''global''
                     then set_add validKeys (a_key assignment)
                     else validKeys)
            | None \<Rightarrow>
                (case assignFunc of
                   None \<Rightarrow> set_add validKeys (a_key assignment)
                 | Some af \<Rightarrow> validKeys)))"

definition getKeysForMapAtLine ::
  "string list \<Rightarrow> string \<Rightarrow> enat \<Rightarrow> bool \<Rightarrow> error + map_keys" where
  "getKeysForMapAtLine lines mapName targetLine includeFunctionKeys =
     (case closestDeclaration lines mapName targetLine of
        None \<Rightarrow> Inr \<lparr>directKeys = [], functionKeys = []\<rparr>
      | Some closestDecl \<Rightarrow>
          (case parseKeyAssignments lines mapName of
             Inl e \<Rightarrow> Inl e
           | Inr assignments \<Rightarrow>
               (let validKeys = fold (valid_key_step lines targetLine closestDecl) assignments []
                in if includeFunctionKeys
                   then (case getKeysFromFunctionCalls lines mapName targetLine of
                           Inl e \<Rightarrow> Inl e
                         | Inr fks \<Rightarrow> Inr \<lparr>directKeys = validKeys, functionKeys = fks\<rparr>)
                   else Inr \<lparr>directKeys = validKeys, functionKeys = []\<rparr>)))"

text \<open>
  A declaration that the loop can take for a query: the name agrees letter case apart, the
  line is not after the target, and the scope is compatible with the place of the query.
\<close>

definition in_scope :: "string list \<Rightarrow> string \<Rightarrow> enat \<Rightarrow> map_declaration \<Rightarrow> bool" where
  "in_scope lines mapName targetLine decl =
     (toLowerCase (decl_name decl) = toLowerCase mapName \<and>
      enat (decl_line decl) \<le> targetLine \<and>
      (case getFunctionAtLine lines targetLine of
         Some currentFunc \<Rightarrow>
           (case getFunctionAtLine lines (enat (decl_line decl)) of
              Some df \<Rightarrow> f_name df = f_name currentFunc
            | None \<Rightarrow> toLowerCase (decl_scope decl) = ''global'')
       | None \<Rightarrow> getFunctionAtLine lines (enat (decl_line decl)) = None))"

text \<open>The functions of a scan lie one after the other: each ends before the next starts.\<close>

definition disjoint_sorted :: "func list \<Rightarrow> bool" where
  "disjoint_sorted fs = (sorted_wrt (\<lambda>f g. f_endLine f < f_startLine g) fs \<and>
      list_all (\<lambda>f. f_startLine f \<le> f_endLine f) fs)"

text \<open>The invariant of the scan before line \<open>n\<close>: the functions pushed end before \<open>n\<close>, and the open
  function starts before \<open>n\<close> and after all of them.\<close>

definition boundary_inv :: "nat \<Rightarrow> (string \<times> nat \<times> string list) option \<times> func list \<Rightarrow> bool" where
  "boundary_inv n st = (disjoint_sorted (snd st) \<and> list_all (\<lambda>f. f_endLine f < n) (snd st) \<and>
     (case fst st of None \<Rightarrow> True
      | Some (nm, start, ps) \<Rightarrow> start < n \<and> list_all (\<lambda>f. f_endLine f < start) (snd st)))"

text \<open>The test of \<^verbatim>\<open>getFunctionAtLine\<close>.\<close>

definition contains_line :: "func \<Rightarrow> enat \<Rightarrow> bool" where
  "contains_line f l = (enat (f_startLine f) \<le> l \<and> l \<le> enat (f_endLine f))"

text \<open>A declaration of the name, at or before the target line, inside the function \<open>f\<close>.\<close>

definition same_function_decl ::
  "string list \<Rightarrow> string \<Rightarrow> enat \<Rightarrow> func \<Rightarrow> map_declaration \<Rightarrow> bool" where
  "same_function_decl lines mapName targetLine f decl =
     (toLowerCase (decl_name decl) = toLowerCase mapName \<and>
      enat (decl_line decl) \<le> targetLine \<and>
      getFunctionAtLine lines (enat (decl_line decl)) = Some f)"

text \<open>Every line from \<open>m\<close> on, up to the target, is at least as close as the closest distance so far.\<close>

definition dist_bound :: "enat \<Rightarrow> map_declaration option \<times> enat \<Rightarrow> nat \<Rightarrow> bool" where
  "dist_bound t st m = (\<forall>l\<ge>m. enat l \<le> t \<longrightarrow> t - enat l \<le> snd st)"

subsection \<open>The priority order of the patterns, in the words of the specification\<close>




subsection \<open>\<^verbatim>\<open>buildNestedMapStructure\<close>\<close>

text \<open>
  A node of the tree and the object \<^verbatim>\<open>children\<close>, a plain object (\<^verbatim>\<open>{}\<close>) used as a
  dictionary from keys to nodes.  Its own properties are kept as a list of pairs in the
  order of insertion (the root \<^verbatim>\<open>{ children: {} }\<close> is modelled by its \<^verbatim>\<open>children\<close>).
  A plain object inherits the properties of \<^verbatim>\<open>Object.prototype\<close>, so the read
  \<^verbatim>\<open>current[key]\<close> has three outcomes: an own property, which is a node; an inherited
  property (a function, or the prototype itself for \<^verbatim>\<open>__proto__\<close>), which is truthy and
  has no property \<^verbatim>\<open>children\<close>; or \<^verbatim>\<open>undefined\<close>.
\<close>

datatype node = Node (n_key: string) (n_line: nat) (n_notation: key_notation)
  (n_children: "(string \<times> node) list") (n_isLeaf: bool) (n_isDynamic: bool)

datatype property = Own node | Inherited | Undefined

definition object_prototype_keys :: "string list" where
  "object_prototype_keys =
     [''constructor'', ''__defineGetter__'', ''__defineSetter__'', ''hasOwnProperty'',
      ''__lookupGetter__'', ''__lookupSetter__'', ''isPrototypeOf'', ''propertyIsEnumerable'',
      ''toString'', ''valueOf'', ''__proto__'', ''toLocaleString'']"

definition js_get :: "(string \<times> node) list \<Rightarrow> string \<Rightarrow> property" where
  "js_get obj key =
     (case map_of obj key of
        Some n \<Rightarrow> Own n
      | None \<Rightarrow> if key \<in> set object_prototype_keys then Inherited else Undefined)"

text \<open>The write \<^verbatim>\<open>obj[key] = n\<close>: a new own property goes to the end.\<close>

definition js_set :: "(string \<times> node) list \<Rightarrow> string \<Rightarrow> node \<Rightarrow> (string \<times> node) list" where
  "js_set obj key n =
     (if key \<in> fst ` set obj then map (\<lambda>(k, v). if k = key then (k, n) else (k, v)) obj
      else obj @ [(key, n)])"

text \<open>
  The loop \<^verbatim>\<open>assignment.nested.forEach((key, index) => ...)\<close> from the object \<^verbatim>\<open>current\<close>
  on, for the keys that are left; the result is the object after the mutations below it.
  Where \<^verbatim>\<open>current[key]\<close> is inherited nothing is created and \<^verbatim>\<open>current\<close> becomes
  \<^verbatim>\<open>undefined\<close>: the loop ends there when that was the last key, and the read
  \<^verbatim>\<open>current[key]\<close> of the next key throws a \<^verbatim>\<open>TypeError\<close> otherwise.
\<close>

fun insert_chain ::
  "nat \<Rightarrow> key_notation \<Rightarrow> string list \<Rightarrow> (string \<times> node) list \<Rightarrow> error + (string \<times> node) list" where
  "insert_chain lineNo nt [] current = Inr current"
| "insert_chain lineNo nt (key # rest) current =
     (case js_get current key of
        Own n \<Rightarrow>
          (case insert_chain lineNo nt rest (n_children n) of
             Inl e \<Rightarrow> Inl e
           | Inr ch \<Rightarrow>
               Inr (js_set current key
                      (Node (n_key n) (n_line n) (n_notation n) ch (n_isLeaf n) (n_isDynamic n))))
      | Undefined \<Rightarrow>
          (case insert_chain lineNo nt rest [] of
             Inl e \<Rightarrow> Inl e
           | Inr ch \<Rightarrow> Inr (js_set current key (Node key lineNo nt ch (rest = []) False)))
      | Inherited \<Rightarrow> if rest = [] then Inr current else Inl TypeError)"

definition structure_step ::
  "assignment \<Rightarrow> (string \<times> node) list \<Rightarrow> error + (string \<times> node) list" where
  "structure_step assignment root_children =
     (if length (a_nested assignment) > 0
      then insert_chain (a_line assignment) (a_notation assignment) (a_nested assignment) root_children
      else (case js_get root_children (a_key assignment) of
              Undefined \<Rightarrow>
                Inr (js_set root_children (a_key assignment)
                       (Node (a_key assignment) (a_line assignment) (a_notation assignment) []
                          True (a_isDynamic assignment)))
            | _ \<Rightarrow> Inr root_children))"

definition buildNestedMapStructure :: "string list \<Rightarrow> string \<Rightarrow> error + (string \<times> node) list" where
  "buildNestedMapStructure lines mapName =
     (case parseKeyAssignments lines mapName of
        Inl e \<Rightarrow> Inl e
      | Inr assignments \<Rightarrow> fold_err structure_step assignments [])"

section \<open>The include resolver\<close>

text \<open>
  Modelled from the spec: the class \<^verbatim>\<open>IncludeResolver\<close> (\<^verbatim>\<open>src/utils/IncludeResolver.js\<close>) is
  not among the sources, only its tests and its callers are.  The specification of
  \<^verbatim>\<open>resolveAllIncludes\<close>: a traversal (in either order, deterministic) bounded by the
  configured maximum depth, counted in hops from the entry file, and by a set of visited
  files keyed by resolved absolute path; the entry file is not part of the result; a file
  at the maximum depth is part of the result and its own includes are not expanded.

  The include graph \<open>inc\<close> gives, for a file, the resolved absolute paths of its include
  directives in the order of the directives (what \<^verbatim>\<open>parseIncludes\<close> and
  \<^verbatim>\<open>resolveIncludePath\<close> give on the file system at hand; a directive that does not resolve
  gives nothing).  The traversal is breadth-first, one hop at a time.
  \<open>next_level inc level visited\<close> reads the include directives of the files of one level
  and keeps, in the order of the directives, the files that are not visited yet, each once.
  \<open>expand inc k level visited\<close>, with \<open>k\<close> hops left, puts these files into the result and
  into the visited files and goes on from them with one hop less; with no hop left the
  directives of the files of the level are not read.  The entry file is the level 0 and
  is visited from the start.
\<close>

definition next_level :: "(string \<Rightarrow> string list) \<Rightarrow> string list \<Rightarrow> string list \<Rightarrow> string list" where
  "next_level inc level visited =
     fold (\<lambda>f found. if f \<in> set visited then found else set_add found f)
          (concat (map inc level)) []"

fun expand :: "(string \<Rightarrow> string list) \<Rightarrow> nat \<Rightarrow> string list \<Rightarrow> string list \<Rightarrow> string list" where
  "expand inc 0 level visited = []"
| "expand inc (Suc k) level visited =
     (let found = next_level inc level visited
      in found @ expand inc k found (visited @ found))"

definition resolveAllIncludes :: "(string \<Rightarrow> string list) \<Rightarrow> nat \<Rightarrow> string \<Rightarrow> string list" where
  "resolveAllIncludes inc maxDepth entry = expand inc maxDepth [entry] [entry]"

text \<open>The files that a file reaches by exactly \<open>n\<close> hops, that is through a row of \<open>n\<close>
  include directives.\<close>

fun hops :: "(string \<Rightarrow> string list) \<Rightarrow> nat \<Rightarrow> string \<Rightarrow> string set" where
  "hops inc 0 f = {f}"
| "hops inc (Suc n) f = (\<Union>g \<in> set (inc f). hops inc n g)"

text \<open>A set of files together with the files they include.\<close>

definition include_closure :: "(string \<Rightarrow> string list) \<Rightarrow> string set \<Rightarrow> string set" where
  "include_closure inc S = S \<union> (\<Union>f \<in> S. set (inc f))"

section \<open>The tracking service (\<^verbatim>\<open>MapTrackingService\<close>)\<close>

text \<open>
  Modelled from the spec: the constructor of \<^verbatim>\<open>IncludeResolver\<close> is not among the sources.
  The service passes it the workspace root, the include paths and the maximum depth, and
  \<^verbatim>\<open>getInstance\<close> reads the last two back as the fields \<^verbatim>\<open>autoitIncludePaths\<close> and
  \<^verbatim>\<open>maxDepth\<close>: the resolver is the record of the three.
\<close>

record include_resolver =
  ir_workspaceRoot :: string
  ir_autoitIncludePaths :: "string list"
  ir_maxDepth :: nat

definition IncludeResolver :: "string \<Rightarrow> string list \<Rightarrow> nat \<Rightarrow> include_resolver" where
  "IncludeResolver wsRoot paths depth =
     \<lparr>ir_workspaceRoot = wsRoot, ir_autoitIncludePaths = paths, ir_maxDepth = depth\<rparr>"

text \<open>
  The fields of a service.  \<^verbatim>\<open>fileParsers\<close> maps a path to its parser (its lines).  Of the
  debouncing state the maps \<^verbatim>\<open>pendingParses\<close> (the pending source of a path) and
  \<^verbatim>\<open>ongoingParses\<close> are kept; the timers of \<^verbatim>\<open>debouncedParseByFile\<close> are not modelled.
\<close>

record service =
  fileParsers :: "string \<rightharpoonup> string list"
  includeResolver :: include_resolver
  workspaceRoot :: string
  pendingParses :: "string \<rightharpoonup> string"
  parseDebounceMs :: nat
  ongoingParses :: "string set"

text \<open>The static field \<^verbatim>\<open>MapTrackingService.instance\<close> (\<open>None\<close> is \<^verbatim>\<open>null\<close>) and the lines
  written with \<^verbatim>\<open>console.warn\<close>.\<close>

record world =
  instance_field :: "service option"
  console :: "string list"

text \<open>An argument that may be left out is \<open>None\<close> (\<^verbatim>\<open>undefined\<close>); a default parameter
  takes its default then.\<close>

definition default_arg :: "'a \<Rightarrow> 'a option \<Rightarrow> 'a" where
  "default_arg d a = (case a of None \<Rightarrow> d | Some v \<Rightarrow> v)"

text \<open>\<^verbatim>\<open>new MapTrackingService(workspaceRoot = '', autoitIncludePaths = [], maxIncludeDepth = 3)\<close>:
  a constructor that returns an object gives that object as the value of \<^verbatim>\<open>new\<close>.\<close>

definition new_MapTrackingService ::
  "string option \<Rightarrow> string list option \<Rightarrow> nat option \<Rightarrow> world \<Rightarrow> service \<times> world" where
  "new_MapTrackingService workspaceRoot' autoitIncludePaths' maxIncludeDepth' w =
     (case instance_field w of
        Some inst \<Rightarrow> (inst, w)
      | None \<Rightarrow>
          (let wsRoot = default_arg [] workspaceRoot';
               this = \<lparr>fileParsers = Map.empty,
                       includeResolver = IncludeResolver wsRoot (default_arg [] autoitIncludePaths')
                                           (default_arg 3 maxIncludeDepth'),
                       workspaceRoot = wsRoot,
                       pendingParses = Map.empty,
                       parseDebounceMs = 500,
                       ongoingParses = {}\<rparr>
           in (this, w\<lparr>instance_field := Some this\<rparr>)))"

definition getInstance_warning :: string where
  "getInstance_warning =
     ''[MapTrackingService] getInstance called with different parameters than initial instance. '' @
     ''Use updateConfiguration() to modify singleton settings.''"

definition getInstance ::
  "string option \<Rightarrow> string list option \<Rightarrow> nat option \<Rightarrow> world \<Rightarrow> service \<times> world" where
  "getInstance workspaceRoot' autoitIncludePaths' maxIncludeDepth' w =
     (case instance_field w of
        None \<Rightarrow> new_MapTrackingService workspaceRoot' autoitIncludePaths' maxIncludeDepth' w
      | Some inst \<Rightarrow>
          if workspaceRoot' \<noteq> None \<or> autoitIncludePaths' \<noteq> None \<or> maxIncludeDepth' \<noteq> None
          then
            (let hasChanges =
                   ((workspaceRoot' \<noteq> None \<and> workspaceRoot' \<noteq> Some (workspaceRoot inst)) \<or>
                    (autoitIncludePaths' \<noteq> None \<and>
                       autoitIncludePaths' \<noteq> Some (ir_autoitIncludePaths (includeResolver inst))) \<or>
                    (maxIncludeDepth' \<noteq> None \<and>
                       maxIncludeDepth' \<noteq> Some (ir_maxDepth (includeResolver inst))))
             in (inst, if hasChanges then w\<lparr>console := console w @ [getInstance_warning]\<rparr> else w))
          else (inst, w))"

definition updateConfiguration :: "string \<Rightarrow> string list \<Rightarrow> nat \<Rightarrow> service \<Rightarrow> service" where
  "updateConfiguration wsRoot paths depth this =
     this\<lparr>workspaceRoot := wsRoot,
          includeResolver := IncludeResolver wsRoot paths depth,
          fileParsers := Map.empty\<rparr>"

definition updateFile :: "string \<Rightarrow> string \<Rightarrow> service \<Rightarrow> service" where
  "updateFile filePath source this =
     this\<lparr>fileParsers := (fileParsers this)(filePath \<mapsto> MapParser source)\<rparr>"

text \<open>\<^verbatim>\<open>_parseFile\<close>, which \<^verbatim>\<open>updateFileImmediate\<close> calls after it has cancelled the timer of
  the path.\<close>

definition parseFile :: "string \<Rightarrow> string \<Rightarrow> service \<Rightarrow> service" where
  "parseFile filePath source this =
     (if filePath \<in> ongoingParses this then this
      else this\<lparr>fileParsers := (fileParsers this)(filePath \<mapsto> MapParser source),
                pendingParses := (pendingParses this)(filePath := None)\<rparr>)"

definition removeFile :: "string \<Rightarrow> service \<Rightarrow> service" where
  "removeFile filePath this = this\<lparr>fileParsers := (fileParsers this)(filePath := None)\<rparr>"

definition clear :: "service \<Rightarrow> service" where
  "clear this = this\<lparr>fileParsers := Map.empty\<rparr>"

text \<open>The calls on the class and on its instance that write state, and what each does to
  the world; a method call reaches the instance through the static field.\<close>

datatype service_call =
    Construct "string option" "string list option" "nat option"
  | GetInstance "string option" "string list option" "nat option"
  | ResetInstance
  | UpdateConfiguration string "string list" nat
  | UpdateFile string string
  | UpdateFileImmediate string string
  | RemoveFile string
  | Clear

definition on_instance :: "(service \<Rightarrow> service) \<Rightarrow> world \<Rightarrow> world" where
  "on_instance m w = w\<lparr>instance_field := map_option m (instance_field w)\<rparr>"

fun service_step :: "service_call \<Rightarrow> world \<Rightarrow> world" where
  "service_step (Construct r p d) w = snd (new_MapTrackingService r p d w)"
| "service_step (GetInstance r p d) w = snd (getInstance r p d w)"
| "service_step ResetInstance w = w\<lparr>instance_field := None\<rparr>"
| "service_step (UpdateConfiguration r p d) w = on_instance (updateConfiguration r p d) w"
| "service_step (UpdateFile f s) w = on_instance (updateFile f s) w"
| "service_step (UpdateFileImmediate f s) w = on_instance (parseFile f s) w"
| "service_step (RemoveFile f) w = on_instance (removeFile f) w"
| "service_step Clear w = on_instance clear w"

definition is_updateConfiguration :: "service_call \<Rightarrow> bool" where
  "is_updateConfiguration c = (case c of UpdateConfiguration r p d \<Rightarrow> True | _ \<Rightarrow> False)"

section \<open>Workspace symbols (\<^verbatim>\<open>ai_workspaceSymbols.js\<close>)\<close>

text \<open>
  What the host gives is a parameter: the files that \<^verbatim>\<open>workspace.findFiles\<close> finds (a file
  stands for its URI string), the two settings, the cancellation token as the value of
  \<^verbatim>\<open>isCancellationRequested\<close> read at the start of the batch that begins at index \<open>i\<close>, and
  \<open>symbols_of\<close>, the \<^verbatim>\<open>try\<close> block of one file (open the document, get its document
  symbols, flatten them): \<open>None\<close> when it throws, which the \<^verbatim>\<open>catch\<close> turns into \<^verbatim>\<open>null\<close>.
  The result of \<^verbatim>\<open>processBatch\<close> is a \<^verbatim>\<open>Map\<close> from URI to symbols, kept in insertion order.
\<close>

text \<open>\<^verbatim>\<open>Map.prototype.set\<close>\<close>

definition results_set :: "(string \<times> 'sym list) list \<Rightarrow> string \<Rightarrow> 'sym list \<Rightarrow> (string \<times> 'sym list) list" where
  "results_set m k v =
     (if k \<in> fst ` set m then map (\<lambda>(k', v'). if k' = k then (k', v) else (k', v')) m
      else m @ [(k, v)])"

definition process_file :: "(string \<Rightarrow> 'sym list option) \<Rightarrow> string \<Rightarrow> (string \<times> 'sym list) option" where
  "process_file symbols_of file = map_option (\<lambda>symbols. (file, symbols)) (symbols_of file)"

definition add_batch_result ::
  "(string \<times> 'sym list) option \<Rightarrow> (string \<times> 'sym list) list \<Rightarrow> (string \<times> 'sym list) list" where
  "add_batch_result r results =
     (case r of None \<Rightarrow> results | Some (uri, symbols) \<Rightarrow> results_set results uri symbols)"

text \<open>
  The loop \<^verbatim>\<open>for (let i = 0; i < files.length; i += batchSize)\<close> from \<open>i\<close> on.  With a
  batch size of 0 the index never moves and the loop does not end: the result \<open>None\<close>.
\<close>

partial_function (option) processBatch_from ::
  "(string \<Rightarrow> 'sym list option) \<Rightarrow> (nat \<Rightarrow> bool) \<Rightarrow> string list \<Rightarrow> nat \<Rightarrow> nat
     \<Rightarrow> (string \<times> 'sym list) list \<Rightarrow> (string \<times> 'sym list) list option" where
  "processBatch_from symbols_of cancelled files batchSize i results =
     (if i < length files
      then (if cancelled i then Some results
            else processBatch_from symbols_of cancelled files batchSize (i + batchSize)
                   (fold add_batch_result
                      (map (process_file symbols_of) (take batchSize (drop i files))) results))
      else Some results)"

definition processBatch ::
  "(string \<Rightarrow> 'sym list option) \<Rightarrow> (nat \<Rightarrow> bool) \<Rightarrow> string list \<Rightarrow> nat
     \<Rightarrow> (string \<times> 'sym list) list option" where
  "processBatch symbols_of cancelled files batchSize =
     processBatch_from symbols_of cancelled files batchSize 0 []"

text \<open>The message of \<^verbatim>\<open>window.showWarningMessage\<close>: ``Processing \<open>maxFiles\<close> of \<open>n\<close> files''.\<close>

datatype message = TruncationWarning nat nat

text \<open>
  \<^verbatim>\<open>getWorkspaceSymbols\<close>: the warnings shown and the map returned (\<open>None\<close> when the call
  does not return).  The files are given, so the \<^verbatim>\<open>catch\<close> of a failing \<^verbatim>\<open>findFiles\<close> is
  not part of the model.
\<close>

definition getWorkspaceSymbols ::
  "(string \<Rightarrow> 'sym list option) \<Rightarrow> (nat \<Rightarrow> bool) \<Rightarrow> nat \<Rightarrow> nat \<Rightarrow> string list
     \<Rightarrow> message list \<times> (string \<times> 'sym list) list option" where
  "getWorkspaceSymbols symbols_of cancelled maxFiles batchSize workspaceScripts =
     (let filesToProcess = take maxFiles workspaceScripts;
          warnings = (if length workspaceScripts > maxFiles
                      then [TruncationWarning maxFiles (length workspaceScripts)] else [])
      in (warnings, processBatch symbols_of cancelled filesToProcess batchSize))"

subsection \<open>\<^verbatim>\<open>getKeysForMap\<close> and \<^verbatim>\<open>getKeysForMapWithIncludes\<close>\<close>

definition getKeysForMap :: "service \<Rightarrow> string \<Rightarrow> string \<Rightarrow> enat \<Rightarrow> error + map_keys" where
  "getKeysForMap this filePath mapName line =
     (case fileParsers this filePath of
        None \<Rightarrow> Inr \<lparr>directKeys = [], functionKeys = []\<rparr>
      | Some parser \<Rightarrow> getKeysForMapAtLine parser mapName line True)"

text \<open>
  The asynchronous \<^verbatim>\<open>getKeysForMapWithIncludes\<close>, run without another task in between.
  The list \<open>includedFiles\<close> is what \<^verbatim>\<open>this.includeResolver.resolveAllIncludes(filePath)\<close>
  returns.  \<open>readFile\<close> is the file system: the source that \<^verbatim>\<open>fs.promises.access\<close> and
  \<^verbatim>\<open>fs.promises.readFile\<close> give for a path, \<open>None\<close> when one of them rejects.  The state is
  the service with the lines written by \<^verbatim>\<open>console.warn\<close>; an exception of a parser query
  rejects the promise (\<open>Inl\<close>).
\<close>

definition read_warning :: "string \<Rightarrow> string" where
  "read_warning includedFile =
     ''[MapTrackingService] Failed to read included file '' @ includedFile @ '':''"

text \<open>The body of the loop over the included files; the state is the service, the console,
  the set \<^verbatim>\<open>allDirectKeys\<close> (in insertion order) and the array \<^verbatim>\<open>allFunctionKeys\<close>.\<close>

definition include_step ::
  "(string \<Rightarrow> string option) \<Rightarrow> string \<Rightarrow> string
     \<Rightarrow> service \<times> string list \<times> string list \<times> function_key list
     \<Rightarrow> error + (service \<times> string list \<times> string list \<times> function_key list)" where
  "include_step readFile mapName includedFile = (\<lambda>(this, logged, allDirectKeys, allFunctionKeys).
     (case (if fileParsers this includedFile = None
            then (case readFile includedFile of
                    Some source \<Rightarrow> Some (updateFile includedFile source this)
                  | None \<Rightarrow> None)
            else Some this) of
        None \<Rightarrow> Inr (this, logged @ [read_warning includedFile], allDirectKeys, allFunctionKeys)
      | Some this' \<Rightarrow>
          (case getKeysForMap this' includedFile mapName \<infinity> of
             Inl e \<Rightarrow> Inl e
           | Inr includedKeys \<Rightarrow>
               Inr (this', logged,
                    fold (\<lambda>key s. set_add s key) (directKeys includedKeys) allDirectKeys,
                    allFunctionKeys @ functionKeys includedKeys))))"

definition getKeysForMapWithIncludes ::
  "(string \<Rightarrow> string option) \<Rightarrow> string list \<Rightarrow> string \<Rightarrow> string \<Rightarrow> enat
     \<Rightarrow> service \<times> string list \<Rightarrow> error + (map_keys \<times> service \<times> string list)" where
  "getKeysForMapWithIncludes readFile includedFiles filePath mapName line = (\<lambda>(this, logged).
     (case getKeysForMap this filePath mapName line of
        Inl e \<Rightarrow> Inl e
      | Inr currentKeys \<Rightarrow>
          (case fold_err (include_step readFile mapName) includedFiles
                  (this, logged, fold (\<lambda>key s. set_add s key) (directKeys currentKeys) [],
                   functionKeys currentKeys) of
             Inl e \<Rightarrow> Inl e
           | Inr (this', logged', allDirectKeys, allFunctionKeys) \<Rightarrow>
               Inr (\<lparr>directKeys = allDirectKeys, functionKeys = allFunctionKeys\<rparr>, this', logged'))))"

text \<open>
  The parser that the query of an included file uses: the cached one, or the one made
  from the source read; \<open>None\<close> when the file is not cached and cannot be read.  Its keys
  are the result of the query at the end of the file, the number of its lines (nothing
  when there is no parser or the query raises).
\<close>

definition parser_of :: "service \<Rightarrow> (string \<Rightarrow> string option) \<Rightarrow> string \<Rightarrow> string list option" where
  "parser_of this readFile f =
     (case fileParsers this f of
        Some parser \<Rightarrow> Some parser
      | None \<Rightarrow> map_option MapParser (readFile f))"

definition keys_at_end :: "string list option \<Rightarrow> string \<Rightarrow> map_keys" where
  "keys_at_end parser mapName =
     (case parser of
        None \<Rightarrow> \<lparr>directKeys = [], functionKeys = []\<rparr>
      | Some lines \<Rightarrow>
          (case getKeysForMapAtLine lines mapName (enat (length lines)) True of
             Inl e \<Rightarrow> \<lparr>directKeys = [], functionKeys = []\<rparr>
           | Inr ks \<Rightarrow> ks))"

definition query_returns :: "string list option \<Rightarrow> string \<Rightarrow> bool" where
  "query_returns parser mapName =
     (case parser of
        None \<Rightarrow> True
      | Some lines \<Rightarrow> (case getKeysForMapAtLine lines mapName \<infinity> True of Inl e \<Rightarrow> False | Inr ks \<Rightarrow> True))"

text \<open>What the declaration loop does for a target beyond the last line: it takes the last
  declaration of the name that lies outside every function.\<close>

definition top_level_step :: "string list \<Rightarrow> string \<Rightarrow> map_declaration \<Rightarrow> map_declaration option
    \<Rightarrow> map_declaration option" where
  "top_level_step lines mapName d c =
     (if toLowerCase (decl_name d) = toLowerCase mapName \<and>
         getFunctionAtLine lines (enat (decl_line d)) = None
      then Some d else c)"

section \<open>A container with flat keys, as a text\<close>











text \<open>The distinct elements of a list, in the order of their first appearance.\<close>

fun first_seen :: "'a list \<Rightarrow> 'a list" where
  "first_seen [] = []"
| "first_seen (x # xs) = x # removeAll x (first_seen xs)"


section \<open>Properties of the parser\<close>

subsection \<open>The declaration loop\<close>

lemma closest_step_out_of_scope:
  "\<not> in_scope lines mapName targetLine decl \<Longrightarrow>
   closest_step lines mapName targetLine decl st = st"
  by (cases st) (auto simp: closest_step_def in_scope_def Let_def split: option.splits)

lemma fold_closest_step_out_of_scope:
  "\<forall>d \<in> set ds. \<not> in_scope lines mapName targetLine d \<Longrightarrow>
   fold (closest_step lines mapName targetLine) ds st = st"
  by (induction ds arbitrary: st) (simp_all add: closest_step_out_of_scope)

lemma closest_step_in_scope:
  "in_scope lines mapName targetLine decl \<Longrightarrow> (fst st = None \<longrightarrow> snd st = \<infinity>) \<Longrightarrow>
   fst (closest_step lines mapName targetLine decl st) \<noteq> None"
  by (cases st) (auto simp: closest_step_def in_scope_def Let_def split: option.splits)

lemma closest_step_keeps:
  "fst st \<noteq> None \<Longrightarrow> fst (closest_step lines mapName targetLine decl st) \<noteq> None"
  by (cases st) (auto simp: closest_step_def Let_def split: option.splits)

lemma closest_step_inv:
  "(fst st = None \<longrightarrow> snd st = \<infinity>) \<Longrightarrow>
   (fst (closest_step lines mapName targetLine decl st) = None \<longrightarrow>
    snd (closest_step lines mapName targetLine decl st) = \<infinity>)"
  by (cases st) (auto simp: closest_step_def Let_def split: option.splits)

lemma fold_closest_step_keeps:
  "fst st \<noteq> None \<Longrightarrow> fst (fold (closest_step lines mapName targetLine) ds st) \<noteq> None"
proof (induction ds arbitrary: st)
  case Nil
  then show ?case by simp
next
  case (Cons d ds)
  from Cons.prems have "fst (closest_step lines mapName targetLine d st) \<noteq> None"
    by (rule closest_step_keeps)
  then have "fst (fold (closest_step lines mapName targetLine) ds
                   (closest_step lines mapName targetLine d st)) \<noteq> None"
    by (rule Cons.IH)
  then show ?case by simp
qed

lemma fold_closest_step_in_scope:
  "\<exists>d \<in> set ds. in_scope lines mapName targetLine d \<Longrightarrow> (fst st = None \<longrightarrow> snd st = \<infinity>) \<Longrightarrow>
   fst (fold (closest_step lines mapName targetLine) ds st) \<noteq> None"
proof (induction ds arbitrary: st)
  case Nil
  then show ?case by simp
next
  case (Cons d ds)
  show ?case
  proof (cases "in_scope lines mapName targetLine d")
    case True
    then have "fst (closest_step lines mapName targetLine d st) \<noteq> None"
      using Cons.prems(2) by (rule closest_step_in_scope)
    then show ?thesis by (simp add: fold_closest_step_keeps)
  next
    case False
    with Cons.prems(1) have ex: "\<exists>d \<in> set ds. in_scope lines mapName targetLine d" by auto
    from False have "closest_step lines mapName targetLine d st = st"
      by (rule closest_step_out_of_scope)
    with Cons.IH [OF ex Cons.prems(2)] show ?thesis by simp
  qed
qed

lemma closestDeclaration_None_iff:
  "closestDeclaration lines mapName targetLine = None \<longleftrightarrow>
   (\<forall>d \<in> set (parseMapDeclarations lines). \<not> in_scope lines mapName targetLine d)"
proof
  assume n: "closestDeclaration lines mapName targetLine = None"
  show "\<forall>d \<in> set (parseMapDeclarations lines). \<not> in_scope lines mapName targetLine d"
  proof (rule ccontr)
    assume "\<not> ?thesis"
    then have "\<exists>d \<in> set (parseMapDeclarations lines). in_scope lines mapName targetLine d"
      by blast
    then have "fst (fold (closest_step lines mapName targetLine) (parseMapDeclarations lines)
                     (None, \<infinity>)) \<noteq> None"
      by (rule fold_closest_step_in_scope) simp
    with n show False by (simp add: closestDeclaration_def)
  qed
next
  assume "\<forall>d \<in> set (parseMapDeclarations lines). \<not> in_scope lines mapName targetLine d"
  then show "closestDeclaration lines mapName targetLine = None"
    by (simp add: closestDeclaration_def fold_closest_step_out_of_scope)
qed

lemma boundary_step_inv:
  "boundary_inv n st \<Longrightarrow> boundary_inv (Suc n) (boundary_step (n, line) st)"
  by (cases st)
     (auto simp: boundary_inv_def boundary_step_def disjoint_sorted_def sorted_wrt_append
        list_all_iff split: option.splits elim!: less_SucI)

lemma fold_boundary_step_inv:
  "boundary_inv n st \<Longrightarrow>
   boundary_inv (n + length ls) (fold boundary_step (List.enumerate n ls) st)"
proof (induction ls arbitrary: n st)
  case Nil
  then show ?case by simp
next
  case (Cons l ls)
  from Cons.prems have "boundary_inv (Suc n) (boundary_step (n, l) st)"
    by (rule boundary_step_inv)
  from Cons.IH [OF this] show ?case by simp
qed

lemma parseFunctionBoundaries_disjoint_sorted: "disjoint_sorted (parseFunctionBoundaries lines)"
proof -
  have "boundary_inv 0 (None, [])"
    by (simp add: boundary_inv_def disjoint_sorted_def)
  from fold_boundary_step_inv [OF this, of lines] show ?thesis
    by (simp add: parseFunctionBoundaries_def boundary_inv_def)
qed

lemma disjoint_sorted_unique:
  "disjoint_sorted fs \<Longrightarrow> f \<in> set fs \<Longrightarrow> g \<in> set fs \<Longrightarrow>
   contains_line f l \<Longrightarrow> contains_line g l \<Longrightarrow> f = g"
proof (induction fs)
  case Nil
  then show ?case by simp
next
  case (Cons h fs)
  have tl: "disjoint_sorted fs" using Cons.prems(1) by (simp add: disjoint_sorted_def)
  have later: "\<forall>x \<in> set fs. f_endLine h < f_startLine x"
    using Cons.prems(1) by (simp add: disjoint_sorted_def)
  have no: "x \<in> set fs \<Longrightarrow> contains_line h l \<Longrightarrow> contains_line x l \<Longrightarrow> False" for x
  proof -
    assume x: "x \<in> set fs" and ch: "contains_line h l" and cx: "contains_line x l"
    from later x have "enat (f_endLine h) < enat (f_startLine x)" by simp
    with ch cx show False unfolding contains_line_def by (meson leD order_trans)
  qed
  from Cons.prems(2,3) consider "f = h" "g = h" | "f = h" "g \<in> set fs" | "f \<in> set fs" "g = h"
    | "f \<in> set fs" "g \<in> set fs" by auto
  then show ?case
  proof cases
    case 1 then show ?thesis by simp
  next
    case 2 with no Cons.prems(4,5) show ?thesis by blast
  next
    case 3 with no Cons.prems(4,5) show ?thesis by blast
  next
    case 4 with Cons.IH tl Cons.prems(4,5) show ?thesis by blast
  qed
qed

lemma getFunctionAtLine_Some:
  "getFunctionAtLine lines l = Some f \<Longrightarrow>
   f \<in> set (parseFunctionBoundaries lines) \<and> contains_line f l"
  by (auto simp: getFunctionAtLine_def contains_line_def find_Some_iff)

lemma getFunctionAtLine_contains:
  assumes "f \<in> set (parseFunctionBoundaries lines)" and "contains_line f l"
  shows "getFunctionAtLine lines l = Some f"
proof (cases "getFunctionAtLine lines l")
  case None
  with assms show ?thesis
    by (auto simp: getFunctionAtLine_def contains_line_def find_None_iff)
next
  case (Some g)
  then have "g \<in> set (parseFunctionBoundaries lines)" "contains_line g l"
    by (simp_all add: getFunctionAtLine_Some)
  with assms parseFunctionBoundaries_disjoint_sorted [of lines] have "g = f"
    by (blast intro: disjoint_sorted_unique)
  with Some show ?thesis by simp
qed

text \<open>A line between two lines of one function is a line of that function.\<close>

lemma getFunctionAtLine_between:
  assumes "getFunctionAtLine lines (enat a) = Some f" and "getFunctionAtLine lines t = Some f"
    and "a \<le> b" and "enat b \<le> t"
  shows "getFunctionAtLine lines (enat b) = Some f"
proof -
  from assms(1,2) have f: "f \<in> set (parseFunctionBoundaries lines)"
    and a: "contains_line f (enat a)" and t: "contains_line f t"
    by (simp_all add: getFunctionAtLine_Some)
  have "enat (f_startLine f) \<le> enat b"
    using a assms(3) by (simp add: contains_line_def)
  moreover have "enat b \<le> enat (f_endLine f)"
    using t assms(4) unfolding contains_line_def by (meson order_trans)
  ultimately have "contains_line f (enat b)" by (simp add: contains_line_def)
  with f show ?thesis by (rule getFunctionAtLine_contains)
qed

lemma map_filter_enumerate_sorted:
  "sorted_wrt (\<lambda>a b. decl_line a < decl_line b) (List.map_filter decl_of_line (List.enumerate n ls)) \<and>
   list_all (\<lambda>a. n \<le> decl_line a) (List.map_filter decl_of_line (List.enumerate n ls))"
proof (induction ls arbitrary: n)
  case Nil
  then show ?case by simp
next
  case (Cons l ls)
  from Cons.IH [of "Suc n"] show ?case
    by (auto simp: decl_of_line_def list_all_iff split: option.splits if_splits)
qed

lemma parseMapDeclarations_sorted:
  "sorted_wrt (\<lambda>a b. decl_line a < decl_line b) (parseMapDeclarations lines)"
  using map_filter_enumerate_sorted [of 0 lines] by (simp add: parseMapDeclarations_def)

lemma enat_diff_mono: "a \<le> b \<Longrightarrow> enat b \<le> t \<Longrightarrow> t - enat b \<le> t - enat a"
  by (cases t) auto

lemma closest_step_snd:
  "snd (closest_step lines mapName t d st) = snd st \<or>
   (snd (closest_step lines mapName t d st) = t - enat (decl_line d) \<and> enat (decl_line d) \<le> t)"
  by (cases st) (auto simp: closest_step_def Let_def split: option.splits)

lemma closest_step_dist_bound:
  assumes "dist_bound t st m" and "decl_line d < m"
  shows "dist_bound t (closest_step lines mapName t d st) m"
proof -
  from closest_step_snd [of lines mapName t d st]
  show ?thesis
  proof
    assume "snd (closest_step lines mapName t d st) = snd st"
    with assms(1) show ?thesis by (simp add: dist_bound_def)
  next
    assume a: "snd (closest_step lines mapName t d st) = t - enat (decl_line d) \<and>
      enat (decl_line d) \<le> t"
    show ?thesis unfolding dist_bound_def
    proof (intro allI impI)
      fix l assume "m \<le> l" and "enat l \<le> t"
      with assms(2) have "t - enat l \<le> t - enat (decl_line d)"
        by (simp add: enat_diff_mono)
      with a show "t - enat l \<le> snd (closest_step lines mapName t d st)" by simp
    qed
  qed
qed

lemma fold_closest_step_dist_bound:
  "dist_bound t st m \<Longrightarrow> \<forall>e \<in> set pre. decl_line e < m \<Longrightarrow>
   dist_bound t (fold (closest_step lines mapName t) pre st) m"
  by (induction pre arbitrary: st) (simp_all add: closest_step_dist_bound)

lemma closest_step_same_function:
  assumes "getFunctionAtLine lines t = Some cf" and "same_function_decl lines mapName t cf d"
    and "dist_bound t st (decl_line d)"
  shows "closest_step lines mapName t d st = (Some d, t - enat (decl_line d))"
proof -
  from assms(2,3) have "t - enat (decl_line d) \<le> snd st"
    by (simp add: dist_bound_def same_function_decl_def)
  moreover from assms(2) have "\<not> t < enat (decl_line d)"
    by (simp add: same_function_decl_def not_less)
  ultimately show ?thesis using assms(1,2)
    by (cases st) (simp add: closest_step_def same_function_decl_def Let_def)
qed

lemma closest_step_skip:
  "\<not> (toLowerCase (decl_name d) = toLowerCase mapName \<and> enat (decl_line d) \<le> t) \<Longrightarrow>
   closest_step lines mapName t d st = st"
  by (cases st) (auto simp: closest_step_def)

lemma fold_closest_step_skip:
  "\<forall>d \<in> set ds. \<not> (toLowerCase (decl_name d) = toLowerCase mapName \<and> enat (decl_line d) \<le> t) \<Longrightarrow>
   fold (closest_step lines mapName t) ds st = st"
  by (induction ds arbitrary: st) (simp_all add: closest_step_skip)

lemma closest_step_choice:
  "fst (closest_step lines mapName t d st) = fst st \<or>
   (fst (closest_step lines mapName t d st) = Some d \<and> in_scope lines mapName t d)"
  by (cases st) (auto simp: closest_step_def in_scope_def Let_def split: option.splits)

lemma fold_closest_step_choice:
  "fst (fold (closest_step lines mapName t) ds st) = fst st \<or>
   (\<exists>d \<in> set ds. fst (fold (closest_step lines mapName t) ds st) = Some d \<and>
      in_scope lines mapName t d)"
proof (induction ds arbitrary: st)
  case Nil
  then show ?case by simp
next
  case (Cons d ds)
  from Cons.IH [of "closest_step lines mapName t d st"] closest_step_choice [of lines mapName t d st]
  show ?case by auto
qed

lemma closestDeclaration_in_scope:
  "closestDeclaration lines mapName t = Some d \<Longrightarrow>
   d \<in> set (parseMapDeclarations lines) \<and> in_scope lines mapName t d"
  using fold_closest_step_choice [of lines mapName t "parseMapDeclarations lines" "(None, \<infinity>)"]
  by (auto simp: closestDeclaration_def)

text \<open>The last declaration of the query's own function is the result.\<close>

lemma closestDeclaration_same_function:
  assumes cf: "getFunctionAtLine lines t = Some cf"
    and ex: "\<exists>d \<in> set (parseMapDeclarations lines). same_function_decl lines mapName t cf d"
  shows "\<exists>d \<in> set (parseMapDeclarations lines).
           closestDeclaration lines mapName t = Some d \<and> same_function_decl lines mapName t cf d"
proof -
  let ?ds = "parseMapDeclarations lines"
  let ?P = "same_function_decl lines mapName t cf"
  from split_list_last_prop [OF ex] obtain pre d post
    where ds: "?ds = pre @ d # post" and d: "?P d" and post: "\<forall>e \<in> set post. \<not> ?P e"
    by blast
  have sorted: "sorted_wrt (\<lambda>a b. decl_line a < decl_line b) (pre @ d # post)"
    using parseMapDeclarations_sorted [of lines] ds by simp
  then have before: "\<forall>e \<in> set pre. decl_line e < decl_line d"
    and after: "\<forall>e \<in> set post. decl_line d < decl_line e"
    by (auto simp: sorted_wrt_append)
  have "dist_bound t (None, \<infinity>) (decl_line d)" by (simp add: dist_bound_def)
  then have "dist_bound t (fold (closest_step lines mapName t) pre (None, \<infinity>)) (decl_line d)"
    using before by (rule fold_closest_step_dist_bound)
  with cf d have at_d: "closest_step lines mapName t d
      (fold (closest_step lines mapName t) pre (None, \<infinity>)) = (Some d, t - enat (decl_line d))"
    by (rule closest_step_same_function)
  have skip: "\<forall>e \<in> set post.
      \<not> (toLowerCase (decl_name e) = toLowerCase mapName \<and> enat (decl_line e) \<le> t)"
  proof (intro ballI notI)
    fix e assume e: "e \<in> set post"
      and m: "toLowerCase (decl_name e) = toLowerCase mapName \<and> enat (decl_line e) \<le> t"
    from after e have le: "decl_line d \<le> decl_line e" by auto
    from d have df: "getFunctionAtLine lines (enat (decl_line d)) = Some cf"
      by (simp add: same_function_decl_def)
    from m have "enat (decl_line e) \<le> t" by simp
    with df cf le have "getFunctionAtLine lines (enat (decl_line e)) = Some cf"
      by (rule getFunctionAtLine_between)
    with m have "?P e" by (simp add: same_function_decl_def)
    with post e show False by blast
  qed
  have "closestDeclaration lines mapName t = Some d"
    by (simp add: closestDeclaration_def ds at_d fold_closest_step_skip [OF skip])
  moreover have "d \<in> set ?ds" by (simp add: ds)
  ultimately show ?thesis using d by blast
qed

subsection \<open>Which declaration a query takes\<close>

text \<open>
  Claim C2, as the code has it.  For every source text, name and query line: the
  declaration that \<^verbatim>\<open>getKeysForMapAtLine\<close> selects is a declaration of the text whose name
  agrees letter case apart, whose line is at or before the query line and whose scope is
  compatible (\<open>in_scope\<close>): for a query inside a function it lies in a function of the same
  name as the query's, or outside every function with the scope keyword \<^verbatim>\<open>Global\<close>; for a
  query outside every function it lies outside every function.  Moreover, for a query
  inside a function \<open>cf\<close>, when some declaration in scope lies inside \<open>cf\<close> itself, then
  the selected declaration lies inside \<open>cf\<close>: a top-level declaration, and one of another
  function of the same name, is selected only when \<open>cf\<close> has none.  So a declaration
  inside a function of another name is never selected.
\<close>

theorem declaration_selection_by_scope:
  "(closestDeclaration lines mapName t = Some d \<longrightarrow>
      d \<in> set (parseMapDeclarations lines) \<and> in_scope lines mapName t d) \<and>
   (getFunctionAtLine lines t = Some cf \<longrightarrow>
    (\<exists>d' \<in> set (parseMapDeclarations lines). same_function_decl lines mapName t cf d') \<longrightarrow>
      (\<exists>c \<in> set (parseMapDeclarations lines).
         closestDeclaration lines mapName t = Some c \<and> same_function_decl lines mapName t cf c))"
  using closestDeclaration_in_scope [of lines mapName t d]
    closestDeclaration_same_function [of lines t cf mapName]
  by blast

text \<open>An instance: a \<^verbatim>\<open>Global\<close> declaration at top level and a \<^verbatim>\<open>Local\<close> one in the function
  of the query.\<close>

theorem declaration_selection_by_scope_witness:
  "getFunctionAtLine [''Global $m[]'', ''Func F()'', ''Local $m[]'', ''$m.a = 1'', ''EndFunc''] 3 =
     Some \<lparr>f_name = ''F'', f_startLine = 1, f_endLine = 4, f_parameters = []\<rparr> \<and>
   same_function_decl [''Global $m[]'', ''Func F()'', ''Local $m[]'', ''$m.a = 1'', ''EndFunc'']
     ''$m'' 3 \<lparr>f_name = ''F'', f_startLine = 1, f_endLine = 4, f_parameters = []\<rparr>
     \<lparr>decl_name = ''$m'', decl_scope = ''Local'', decl_line = 2\<rparr> \<and>
   closestDeclaration [''Global $m[]'', ''Func F()'', ''Local $m[]'', ''$m.a = 1'', ''EndFunc'']
     ''$m'' 3 = Some \<lparr>decl_name = ''$m'', decl_scope = ''Local'', decl_line = 2\<rparr> \<and>
   in_scope [''Global $m[]'', ''Func F()'', ''Local $m[]'', ''$m.a = 1'', ''EndFunc'']
     ''$m'' 3 \<lparr>decl_name = ''$m'', decl_scope = ''Local'', decl_line = 2\<rparr>"
proof -
  let ?ls = "[''Global $m[]'', ''Func F()'', ''Local $m[]'', ''$m.a = 1'', ''EndFunc'']"
  let ?f = "\<lparr>f_name = ''F'', f_startLine = 1, f_endLine = 4, f_parameters = []\<rparr>"
  let ?d = "\<lparr>decl_name = ''$m'', decl_scope = ''Local'', decl_line = 2\<rparr>"
  have f: "getFunctionAtLine ?ls 3 = Some ?f" by code_simp
  have s: "same_function_decl ?ls ''$m'' 3 ?f ?d" by code_simp
  have c: "closestDeclaration ?ls ''$m'' 3 = Some ?d" by code_simp
  from declaration_selection_by_scope [of ?ls "''$m''" 3 ?d ?f] c
  have "in_scope ?ls ''$m'' 3 ?d" by blast
  with f s c show ?thesis by blast
qed

text \<open>
  The claim as it is written says that a declaration inside a different function is never
  selected.  Functions are compared by name (\<^verbatim>\<open>declFunc.name === currentFunc.name\<close>): with
  two functions of one name, a query inside the second selects the declaration inside the
  first.
\<close>

theorem declaration_of_other_function_counterexample:
  "getFunctionAtLine
     [''Func Foo()'', ''Local $m[]'', ''EndFunc'', ''Func Foo()'', ''$m.b = 2'', ''EndFunc''] 4 =
     Some \<lparr>f_name = ''Foo'', f_startLine = 3, f_endLine = 5, f_parameters = []\<rparr> \<and>
   closestDeclaration
     [''Func Foo()'', ''Local $m[]'', ''EndFunc'', ''Func Foo()'', ''$m.b = 2'', ''EndFunc'']
     ''$m'' 4 = Some \<lparr>decl_name = ''$m'', decl_scope = ''Local'', decl_line = 1\<rparr> \<and>
   getFunctionAtLine
     [''Func Foo()'', ''Local $m[]'', ''EndFunc'', ''Func Foo()'', ''$m.b = 2'', ''EndFunc''] 1 =
     Some \<lparr>f_name = ''Foo'', f_startLine = 0, f_endLine = 2, f_parameters = []\<rparr> \<and>
   getFunctionAtLine
     [''Func Foo()'', ''Local $m[]'', ''EndFunc'', ''Func Foo()'', ''$m.b = 2'', ''EndFunc''] 1 \<noteq>
   getFunctionAtLine
     [''Func Foo()'', ''Local $m[]'', ''EndFunc'', ''Func Foo()'', ''$m.b = 2'', ''EndFunc''] 4"
  by code_simp

subsection \<open>No declaration in scope\<close>

text \<open>
  Claim C8.  For every source text, container name (literal or not) and query line, also
  \<^verbatim>\<open>Infinity\<close>: when no declaration of that name, letter case apart, lies at or before the
  query line in a scope compatible with the query, \<^verbatim>\<open>getKeysForMapAtLine\<close> returns a result
  (it does not raise), and both \<^verbatim>\<open>directKeys\<close> and \<^verbatim>\<open>functionKeys\<close> of it are empty.
\<close>

theorem no_declaration_empty_keys:
  "\<forall>d \<in> set (parseMapDeclarations lines). \<not> in_scope lines mapName targetLine d \<Longrightarrow>
   getKeysForMapAtLine lines mapName targetLine includeFunctionKeys =
     Inr \<lparr>directKeys = [], functionKeys = []\<rparr>"
  by (simp add: getKeysForMapAtLine_def closestDeclaration_def fold_closest_step_out_of_scope)

text \<open>
  An instance: the only declaration of \<^verbatim>\<open>$m\<close> is local to \<^verbatim>\<open>F\<close>, the query is inside
  \<^verbatim>\<open>G\<close>.
\<close>

theorem no_declaration_empty_keys_witness:
  "parseMapDeclarations
     [''Func F()'', ''Local $m[]'', ''EndFunc'', ''Func G()'', ''$m.a = 1'', ''EndFunc''] =
     [\<lparr>decl_name = ''$m'', decl_scope = ''Local'', decl_line = 1\<rparr>] \<and>
   \<not> in_scope [''Func F()'', ''Local $m[]'', ''EndFunc'', ''Func G()'', ''$m.a = 1'', ''EndFunc'']
       ''$m'' 5 \<lparr>decl_name = ''$m'', decl_scope = ''Local'', decl_line = 1\<rparr> \<and>
   getKeysForMapAtLine
     [''Func F()'', ''Local $m[]'', ''EndFunc'', ''Func G()'', ''$m.a = 1'', ''EndFunc'']
     ''$m'' 5 True = Inr \<lparr>directKeys = [], functionKeys = []\<rparr>"
proof -
  have h: "\<forall>d \<in> set (parseMapDeclarations
        [''Func F()'', ''Local $m[]'', ''EndFunc'', ''Func G()'', ''$m.a = 1'', ''EndFunc'']).
      \<not> in_scope [''Func F()'', ''Local $m[]'', ''EndFunc'', ''Func G()'', ''$m.a = 1'', ''EndFunc'']
          ''$m'' 5 d"
    by code_simp
  have d: "parseMapDeclarations
     [''Func F()'', ''Local $m[]'', ''EndFunc'', ''Func G()'', ''$m.a = 1'', ''EndFunc''] =
     [\<lparr>decl_name = ''$m'', decl_scope = ''Local'', decl_line = 1\<rparr>]"
    by code_simp
  from h d have "\<not> in_scope
       [''Func F()'', ''Local $m[]'', ''EndFunc'', ''Func G()'', ''$m.a = 1'', ''EndFunc'']
       ''$m'' 5 \<lparr>decl_name = ''$m'', decl_scope = ''Local'', decl_line = 1\<rparr>"
    by simp
  with no_declaration_empty_keys [OF h] d show ?thesis by blast
qed

subsection \<open>The patterns of an assignment\<close>

lemma canonicalize_semicolon [simp]: "canonicalize c = canonicalize (CHR '';'') \<longleftrightarrow> c = CHR '';''"
proof
  assume a: "canonicalize c = canonicalize (CHR '';'')"
  have "(of_char c :: nat) = of_char (CHR '';'')"
    using a by (auto simp: canonicalize_def Let_def split: if_splits)
  then show "c = CHR '';''" by (simp only: of_char_eq_iff)
qed simp


















subsection \<open>The tree of nested keys\<close>

text \<open>
  The example of the specification: the chain \<^verbatim>\<open>$mData["a"]["b"] = 1\<close> gives a root with the
  one child \<^verbatim>\<open>a\<close>, which has the one child \<^verbatim>\<open>b\<close>, a leaf.
\<close>

lemma buildNestedMapStructure_example:
  \<open>buildNestedMapStructure [''$mData["a"]["b"] = 1''] ''$mData'' =
     Inr [(''a'', Node ''a'' 0 Bracket [(''b'', Node ''b'' 0 Bracket [] True False)] False False)]\<close>
  by code_simp

text \<open>
  Claim C4 at the inputs where the code departs from it.  A key that names a property of
  \<^verbatim>\<open>Object.prototype\<close> is read as present in the empty object: the flat assignment
  \<^verbatim>\<open>$mData.constructor = 1\<close> is parsed and gives no child of the root; a chain that ends in
  such a key leaves a node without children that is not a leaf; and a chain that goes on
  after such a key throws.
\<close>

theorem prototype_key_gives_no_node:
  \<open>parseKeyAssignments [''$mData.constructor = 1''] ''$mData'' =
     Inr [\<lparr>a_key = ''constructor'', a_line = 0, a_notation = Dot, a_nested = [],
            a_isDynamic = False\<rparr>] \<and>
   buildNestedMapStructure [''$mData.constructor = 1''] ''$mData'' = Inr [] \<and>
   buildNestedMapStructure [''$mData["a"]["toString"] = 1''] ''$mData'' =
     Inr [(''a'', Node ''a'' 0 Bracket [] False False)] \<and>
   buildNestedMapStructure [''$mData["constructor"]["b"] = 1''] ''$mData'' = Inl TypeError\<close>
  by code_simp

section \<open>Properties of the include resolver\<close>

subsection \<open>One level of the traversal\<close>

lemma fold_found_set:
  "set (fold (\<lambda>f found. if f \<in> set visited then found else set_add found f) xs acc) =
     set acc \<union> (set xs - set visited)"
  by (induction xs arbitrary: acc) (auto simp: set_add_def)

lemma fold_found_distinct:
  "distinct acc \<Longrightarrow>
   distinct (fold (\<lambda>f found. if f \<in> set visited then found else set_add found f) xs acc)"
  by (induction xs arbitrary: acc) (auto simp: set_add_def)

lemma set_next_level:
  "set (next_level inc level visited) = (\<Union>f \<in> set level. set (inc f)) - set visited"
  by (simp add: next_level_def fold_found_set)

lemma distinct_next_level: "distinct (next_level inc level visited)"
  by (simp add: next_level_def fold_found_distinct)

lemma expand_distinct:
  "distinct (expand inc k level visited) \<and> set (expand inc k level visited) \<inter> set visited = {}"
proof (induction k arbitrary: level visited)
  case 0
  show ?case by simp
next
  case (Suc k)
  let ?found = "next_level inc level visited"
  from Suc [of ?found "visited @ ?found"]
  have d: "distinct (expand inc k ?found (visited @ ?found))"
    and i: "set (expand inc k ?found (visited @ ?found)) \<inter> (set visited \<union> set ?found) = {}"
    by simp_all
  have "set ?found \<inter> set visited = {}" by (auto simp: set_next_level)
  with d i distinct_next_level [of inc level visited] show ?case
    by (auto simp: Let_def)
qed

lemma include_closure_level:
  assumes "set level \<subseteq> set visited"
    and "\<forall>f \<in> set visited - set level. set (inc f) \<subseteq> set visited"
  shows "set visited \<union> set (next_level inc level visited) = include_closure inc (set visited)"
  using assms by (auto simp: set_next_level include_closure_def)

lemma expand_include_closure:
  assumes "set level \<subseteq> set visited"
    and "\<forall>f \<in> set visited - set level. set (inc f) \<subseteq> set visited"
  shows "set visited \<union> set (expand inc k level visited) = (include_closure inc ^^ k) (set visited)"
  using assms
proof (induction k arbitrary: level visited)
  case 0
  show ?case by simp
next
  case (Suc k)
  let ?found = "next_level inc level visited"
  have c: "set visited \<union> set ?found = include_closure inc (set visited)"
    using Suc.prems by (rule include_closure_level)
  have "set ?found \<subseteq> set (visited @ ?found)" by simp
  moreover have "\<forall>f \<in> set (visited @ ?found) - set ?found. set (inc f) \<subseteq> set (visited @ ?found)"
    using Suc.prems by (auto simp: set_next_level)
  ultimately have "set (visited @ ?found) \<union> set (expand inc k ?found (visited @ ?found)) =
      (include_closure inc ^^ k) (set (visited @ ?found))"
    by (rule Suc.IH)
  with c have "set visited \<union> set ?found \<union> set (expand inc k ?found (visited @ ?found)) =
      (include_closure inc ^^ k) (include_closure inc (set visited))"
    by simp
  then show ?case by (simp add: Let_def funpow_swap1 Un_assoc)
qed

lemma include_closure_hops:
  "(include_closure inc ^^ k) S = {g. \<exists>f \<in> S. \<exists>n \<le> k. g \<in> hops inc n f}"
proof (induction k arbitrary: S)
  case 0
  show ?case by auto
next
  case (Suc k)
  have "(include_closure inc ^^ Suc k) S = (include_closure inc ^^ k) (include_closure inc S)"
    by (simp add: funpow_swap1)
  also have "\<dots> = {g. \<exists>f \<in> include_closure inc S. \<exists>n \<le> k. g \<in> hops inc n f}"
    by (rule Suc)
  also have "\<dots> = {g. \<exists>f \<in> S. \<exists>n \<le> Suc k. g \<in> hops inc n f}" (is "?l = ?r")
  proof (rule set_eqI, rule iffI)
    fix g
    assume "g \<in> ?l"
    then obtain f n where f: "f \<in> include_closure inc S" and n: "n \<le> k" and g: "g \<in> hops inc n f"
      by blast
    from f consider "f \<in> S" | e where "e \<in> S" "f \<in> set (inc e)"
      unfolding include_closure_def by blast
    then show "g \<in> ?r"
    proof cases
      case 1
      from n have "n \<le> Suc k" by simp
      with 1 g show ?thesis by blast
    next
      case 2
      from 2(2) g have "g \<in> hops inc (Suc n) e" by auto
      moreover from n have "Suc n \<le> Suc k" by simp
      ultimately show ?thesis using 2(1) by blast
    qed
  next
    fix g
    assume "g \<in> ?r"
    then obtain f n where f: "f \<in> S" and n: "n \<le> Suc k" and g: "g \<in> hops inc n f"
      by blast
    show "g \<in> ?l"
    proof (cases n)
      case 0
      with g have "g = f" by simp
      with f have "g \<in> include_closure inc S" and "g \<in> hops inc 0 g" by (simp_all add: include_closure_def)
      then show ?thesis by blast
    next
      case (Suc m)
      with g obtain e where e: "e \<in> set (inc f)" and ge: "g \<in> hops inc m e" by auto
      from e f have "e \<in> include_closure inc S" by (auto simp: include_closure_def)
      moreover from Suc n have "m \<le> k" by simp
      ultimately show ?thesis using ge by blast
    qed
  qed
  finally show ?case .
qed

lemma resolveAllIncludes_distinct:
  "distinct (resolveAllIncludes inc maxDepth entry) \<and> entry \<notin> set (resolveAllIncludes inc maxDepth entry)"
  using expand_distinct [of inc maxDepth "[entry]" "[entry]"]
  by (simp add: resolveAllIncludes_def)

lemma resolveAllIncludes_hops:
  "set (resolveAllIncludes inc maxDepth entry) =
     {f. \<exists>n. 1 \<le> n \<and> n \<le> maxDepth \<and> f \<in> hops inc n entry} - {entry}"
proof -
  let ?r = "resolveAllIncludes inc maxDepth entry"
  have "set [entry] \<union> set (expand inc maxDepth [entry] [entry]) = (include_closure inc ^^ maxDepth) (set [entry])"
    by (rule expand_include_closure) simp_all
  then have "{entry} \<union> set ?r = (include_closure inc ^^ maxDepth) {entry}"
    by (simp only: resolveAllIncludes_def list.set)
  also have "\<dots> = {g. \<exists>f \<in> {entry}. \<exists>n \<le> maxDepth. g \<in> hops inc n f}"
    by (rule include_closure_hops)
  finally have e: "{entry} \<union> set ?r = {g. \<exists>n \<le> maxDepth. g \<in> hops inc n entry}"
    by simp
  from resolveAllIncludes_distinct [of inc maxDepth entry] have n: "entry \<notin> set ?r" by simp
  show ?thesis
  proof (rule set_eqI)
    fix x
    show "x \<in> set ?r \<longleftrightarrow> x \<in> {f. \<exists>n. 1 \<le> n \<and> n \<le> maxDepth \<and> f \<in> hops inc n entry} - {entry}"
    proof (cases "x = entry")
      case True
      with n show ?thesis by simp
    next
      case False
      from e have "x \<in> {entry} \<union> set ?r \<longleftrightarrow> x \<in> {g. \<exists>n \<le> maxDepth. g \<in> hops inc n entry}"
        by (rule arg_cong)
      with False have a: "x \<in> set ?r \<longleftrightarrow> (\<exists>n \<le> maxDepth. x \<in> hops inc n entry)" by simp
      have "(\<exists>n \<le> maxDepth. x \<in> hops inc n entry) \<longleftrightarrow>
            (\<exists>n. 1 \<le> n \<and> n \<le> maxDepth \<and> x \<in> hops inc n entry)"
      proof
        assume "\<exists>n \<le> maxDepth. x \<in> hops inc n entry"
        then obtain n where m: "n \<le> maxDepth" and h: "x \<in> hops inc n entry" by blast
        from h False have "n \<noteq> 0" by (cases n) auto
        then have "1 \<le> n" by simp
        with m h show "\<exists>n. 1 \<le> n \<and> n \<le> maxDepth \<and> x \<in> hops inc n entry" by blast
      next
        assume "\<exists>n. 1 \<le> n \<and> n \<le> maxDepth \<and> x \<in> hops inc n entry"
        then show "\<exists>n \<le> maxDepth. x \<in> hops inc n entry" by blast
      qed
      with a False show ?thesis by simp
    qed
  qed
qed



text \<open>On a chain of distinct files, each including the next, the result is the files at
  the depths 1 to \<open>d\<close>.\<close>

lemma expand_chain:
  assumes "inj_on c {0..d}" and "\<forall>j<d. inc (c j) = [c (Suc j)]" and "i + k = d"
  shows "expand inc k [c i] (map c [0..<Suc i]) = map c [Suc i..<Suc d]"
  using assms(3)
proof (induction k arbitrary: i)
  case 0
  then show ?case by simp
next
  case (Suc k)
  from Suc.prems have i: "i < d" by simp
  with assms(2) have inc: "inc (c i) = [c (Suc i)]" by simp
  have new: "c (Suc i) \<notin> set (map c [0..<Suc i])"
  proof
    assume "c (Suc i) \<in> set (map c [0..<Suc i])"
    then obtain j where j: "j \<le> i" and e: "c (Suc i) = c j"
      by (auto simp del: upt_Suc simp: less_Suc_eq_le)
    from i j have "Suc i \<in> {0..d}" and "j \<in> {0..d}" by simp_all
    with assms(1) e have "Suc i = j" by (rule inj_onD)
    with j show False by simp
  qed
  from inc new have found: "next_level inc [c i] (map c [0..<Suc i]) = [c (Suc i)]"
    by (simp add: next_level_def set_add_def del: upt_Suc)
  have up: "map c [0..<Suc i] @ [c (Suc i)] = map c [0..<Suc (Suc i)]" by simp
  from Suc.prems have "Suc i + k = d" by simp
  from Suc.IH [OF this] have "expand inc k [c (Suc i)] (map c [0..<Suc i] @ [c (Suc i)]) =
      map c [Suc (Suc i)..<Suc d]"
    by (simp only: up)
  moreover from i have "map c [Suc i..<Suc d] = c (Suc i) # map c [Suc (Suc i)..<Suc d]"
    by (simp add: upt_conv_Cons del: upt_Suc)
  ultimately show ?case
    by (simp only: expand.simps found Let_def append_Cons append_Nil)
qed

lemma resolveAllIncludes_chain:
  assumes "inj_on c {0..d}" and "\<forall>j<d. inc (c j) = [c (Suc j)]"
  shows "resolveAllIncludes inc d (c 0) = map c [1..<Suc d]"
  using expand_chain [OF assms, of 0 d] by (simp add: resolveAllIncludes_def)

text \<open>A file that is included at two depths is read at the smaller one: \<^verbatim>\<open>e.au3\<close> includes
  \<^verbatim>\<open>a.au3\<close> and \<^verbatim>\<open>c.au3\<close>, \<^verbatim>\<open>a.au3\<close> includes \<^verbatim>\<open>c.au3\<close>, and \<^verbatim>\<open>c.au3\<close> includes
  \<^verbatim>\<open>d.au3\<close>, which is two hops from the entry file, in either order of the directives of
  \<^verbatim>\<open>e.au3\<close>.\<close>

lemma resolveAllIncludes_shared_include:
  "resolveAllIncludes
     (\<lambda>p. if p = ''e.au3'' then [''a.au3'', ''c.au3''] else if p = ''a.au3'' then [''c.au3'']
          else if p = ''c.au3'' then [''d.au3''] else [])
     2 ''e.au3'' = [''a.au3'', ''c.au3'', ''d.au3''] \<and>
   resolveAllIncludes
     (\<lambda>p. if p = ''e.au3'' then [''c.au3'', ''a.au3''] else if p = ''a.au3'' then [''c.au3'']
          else if p = ''c.au3'' then [''d.au3''] else [])
     2 ''e.au3'' = [''c.au3'', ''a.au3'', ''d.au3'']"
  by code_simp

text \<open>
  Claim C5.  \<open>resolveAllIncludes\<close> is a total function of the include graph, the maximum
  depth and the entry file: the traversal ends on every graph, also one with a cycle.  A
  file is added to the result only when it is not in the set of visited files, and is put
  into that set with it, so no file is in the result twice and the entry file, visited from
  the start, is not in it.
\<close>

theorem resolveAllIncludes_each_file_once:
  "distinct (resolveAllIncludes inc maxDepth entry) \<and>
   entry \<notin> set (resolveAllIncludes inc maxDepth entry)"
  by (rule resolveAllIncludes_distinct)

text \<open>The cycle of the test: \<^verbatim>\<open>a.au3\<close> includes \<^verbatim>\<open>b.au3\<close>, which includes \<^verbatim>\<open>a.au3\<close>.\<close>

theorem resolveAllIncludes_each_file_once_witness:
  "resolveAllIncludes
     (\<lambda>p. if p = ''a.au3'' then [''b.au3''] else if p = ''b.au3'' then [''a.au3''] else [])
     3 ''a.au3'' = [''b.au3''] \<and>
   distinct (resolveAllIncludes
     (\<lambda>p. if p = ''a.au3'' then [''b.au3''] else if p = ''b.au3'' then [''a.au3''] else [])
     3 ''a.au3'') \<and>
   ''a.au3'' \<notin> set (resolveAllIncludes
     (\<lambda>p. if p = ''a.au3'' then [''b.au3''] else if p = ''b.au3'' then [''a.au3''] else [])
     3 ''a.au3'')"
proof -
  have "resolveAllIncludes
     (\<lambda>p. if p = ''a.au3'' then [''b.au3''] else if p = ''b.au3'' then [''a.au3''] else [])
     3 ''a.au3'' = [''b.au3'']"
    by code_simp
  with resolveAllIncludes_each_file_once
    [of "\<lambda>p. if p = ''a.au3'' then [''b.au3''] else if p = ''b.au3'' then [''a.au3''] else []"
        3 "''a.au3''"]
  show ?thesis by blast
qed

text \<open>
  Claim C6.  The entry file is not in the result, and the result holds exactly the files
  that lie between one hop and \<open>maxDepth\<close> hops from the entry file: a file at the maximum
  depth is in it, and a file that is reached only through the include directives of a file
  at the maximum depth, by more than \<open>maxDepth\<close> hops, is not.  On a chain of distinct files
  that include one another in a row, the result is the files at the depths 1 to
  \<open>maxDepth\<close>: the file at the maximum depth is in it, the file it includes is not.
\<close>

theorem resolveAllIncludes_depth_bound:
  "entry \<notin> set (resolveAllIncludes inc maxDepth entry) \<and>
   set (resolveAllIncludes inc maxDepth entry) =
     {f. \<exists>n. 1 \<le> n \<and> n \<le> maxDepth \<and> f \<in> hops inc n entry} - {entry} \<and>
   (inj_on c {0..maxDepth} \<and> (\<forall>j<maxDepth. inc (c j) = [c (Suc j)]) \<longrightarrow>
      resolveAllIncludes inc maxDepth (c 0) = map c [1..<Suc maxDepth])"
  using resolveAllIncludes_distinct [of inc maxDepth entry]
    resolveAllIncludes_hops [of inc maxDepth entry]
    resolveAllIncludes_chain [of c maxDepth inc]
  by blast

text \<open>The chain of the test, with the maximum depth 2.\<close>

theorem resolveAllIncludes_depth_bound_witness:
  "inj_on (\<lambda>i::nat. if i = 0 then ''level1.au3'' else if i = 1 then ''level2.au3''
          else if i = 2 then ''level3.au3'' else ''level4.au3'') {0..2::nat} \<and>
   (\<lambda>p. if p = ''level1.au3'' then [''level2.au3'']
          else if p = ''level2.au3'' then [''level3.au3'']
          else if p = ''level3.au3'' then [''level4.au3''] else []) ''level1.au3'' = [''level2.au3''] \<and>
   (\<lambda>p. if p = ''level1.au3'' then [''level2.au3'']
          else if p = ''level2.au3'' then [''level3.au3'']
          else if p = ''level3.au3'' then [''level4.au3''] else []) ''level2.au3'' = [''level3.au3''] \<and>
   (\<lambda>p. if p = ''level1.au3'' then [''level2.au3'']
          else if p = ''level2.au3'' then [''level3.au3'']
          else if p = ''level3.au3'' then [''level4.au3''] else []) ''level3.au3'' = [''level4.au3''] \<and>
   resolveAllIncludes (\<lambda>p. if p = ''level1.au3'' then [''level2.au3'']
          else if p = ''level2.au3'' then [''level3.au3'']
          else if p = ''level3.au3'' then [''level4.au3''] else []) 2 ''level1.au3'' = [''level2.au3'', ''level3.au3''] \<and>
   ''level4.au3'' \<notin> set (resolveAllIncludes (\<lambda>p. if p = ''level1.au3'' then [''level2.au3'']
          else if p = ''level2.au3'' then [''level3.au3'']
          else if p = ''level3.au3'' then [''level4.au3''] else []) 2 ''level1.au3'') \<and>
   ''level1.au3'' \<notin> set (resolveAllIncludes (\<lambda>p. if p = ''level1.au3'' then [''level2.au3'']
          else if p = ''level2.au3'' then [''level3.au3'']
          else if p = ''level3.au3'' then [''level4.au3''] else []) 2 ''level1.au3'')"
proof -
  let ?inc = "(\<lambda>p. if p = ''level1.au3'' then [''level2.au3'']
          else if p = ''level2.au3'' then [''level3.au3'']
          else if p = ''level3.au3'' then [''level4.au3''] else [])"
  let ?c = "(\<lambda>i::nat. if i = 0 then ''level1.au3'' else if i = 1 then ''level2.au3''
          else if i = 2 then ''level3.au3'' else ''level4.au3'')"
  have i: "inj_on ?c {0..2::nat}"
    by (auto simp: inj_on_def split: if_splits)
  have n: "\<forall>j<2::nat. ?inc (?c j) = [?c (Suc j)]"
    by (auto simp: less_Suc_eq numeral_2_eq_2)
  have m: "map ?c [1..<Suc 2] = [''level2.au3'', ''level3.au3'']"
    by (simp add: upt_rec)
  from resolveAllIncludes_depth_bound [of "''level1.au3''" ?inc 2 ?c] i n
  have "resolveAllIncludes ?inc 2 (?c 0) = map ?c [1..<Suc 2]"
    by blast
  with m have r: "resolveAllIncludes ?inc 2 ''level1.au3'' = [''level2.au3'', ''level3.au3'']"
    by simp
  from i r show ?thesis by simp
qed

section \<open>Properties of the tracking service\<close>

text \<open>
  Claim C10.  Once an instance exists, the constructor and \<^verbatim>\<open>getInstance\<close>, with any
  arguments, return that instance, and the instance held by the class is the same after
  the call, fields and parser cache included.  Of the calls that write state, every call
  but \<^verbatim>\<open>updateConfiguration\<close> leaves the workspace root and the resolver of the instance as
  they were; \<^verbatim>\<open>updateConfiguration\<close> sets both and empties the parser cache.
\<close>

theorem singleton_configuration_kept:
  assumes "instance_field w = Some inst"
  shows "new_MapTrackingService r p d w = (inst, w) \<and>
         fst (getInstance r p d w) = inst \<and>
         instance_field (snd (getInstance r p d w)) = Some inst \<and>
         (\<not> is_updateConfiguration c \<longrightarrow>
            (case instance_field (service_step c w) of
               None \<Rightarrow> c = ResetInstance
             | Some inst' \<Rightarrow> workspaceRoot inst' = workspaceRoot inst \<and>
                             includeResolver inst' = includeResolver inst)) \<and>
         instance_field (service_step (UpdateConfiguration r' p' d') w) =
           Some (inst\<lparr>workspaceRoot := r', includeResolver := IncludeResolver r' p' d',
                      fileParsers := Map.empty\<rparr>)"
proof (intro conjI impI)
  from assms show "new_MapTrackingService r p d w = (inst, w)"
    by (simp add: new_MapTrackingService_def)
  from assms show "fst (getInstance r p d w) = inst"
    by (simp add: getInstance_def Let_def)
  from assms show "instance_field (snd (getInstance r p d w)) = Some inst"
    by (simp add: getInstance_def Let_def)
  from assms show "instance_field (service_step (UpdateConfiguration r' p' d') w) =
           Some (inst\<lparr>workspaceRoot := r', includeResolver := IncludeResolver r' p' d',
                      fileParsers := Map.empty\<rparr>)"
    by (simp add: on_instance_def updateConfiguration_def)
next
  assume "\<not> is_updateConfiguration c"
  with assms show "case instance_field (service_step c w) of
               None \<Rightarrow> c = ResetInstance
             | Some inst' \<Rightarrow> workspaceRoot inst' = workspaceRoot inst \<and>
                             includeResolver inst' = includeResolver inst"
    by (cases c)
       (simp_all add: is_updateConfiguration_def new_MapTrackingService_def getInstance_def
          Let_def on_instance_def updateFile_def parseFile_def removeFile_def clear_def)
qed


text \<open>An instance made for \<^verbatim>\<open>/ws\<close>, then \<^verbatim>\<open>getInstance\<close> with another root and depth: the
  instance is returned as it is and a warning is written.\<close>

theorem singleton_configuration_kept_witness:
  "new_MapTrackingService (Some ''/ws'') (Some [''/inc'']) (Some 3)
     \<lparr>instance_field = None, console = []\<rparr> = (\<lparr>fileParsers = Map.empty, includeResolver = IncludeResolver ''/ws'' [''/inc''] 3,
        workspaceRoot = ''/ws'', pendingParses = Map.empty, parseDebounceMs = 500,
        ongoingParses = {}\<rparr>, \<lparr>instance_field = Some \<lparr>fileParsers = Map.empty, includeResolver = IncludeResolver ''/ws'' [''/inc''] 3,
        workspaceRoot = ''/ws'', pendingParses = Map.empty, parseDebounceMs = 500,
        ongoingParses = {}\<rparr>, console = []\<rparr>) \<and>
   fst (getInstance (Some ''/other'') None (Some 5) \<lparr>instance_field = Some \<lparr>fileParsers = Map.empty, includeResolver = IncludeResolver ''/ws'' [''/inc''] 3,
        workspaceRoot = ''/ws'', pendingParses = Map.empty, parseDebounceMs = 500,
        ongoingParses = {}\<rparr>, console = []\<rparr>) = \<lparr>fileParsers = Map.empty, includeResolver = IncludeResolver ''/ws'' [''/inc''] 3,
        workspaceRoot = ''/ws'', pendingParses = Map.empty, parseDebounceMs = 500,
        ongoingParses = {}\<rparr> \<and>
   instance_field (snd (getInstance (Some ''/other'') None (Some 5) \<lparr>instance_field = Some \<lparr>fileParsers = Map.empty, includeResolver = IncludeResolver ''/ws'' [''/inc''] 3,
        workspaceRoot = ''/ws'', pendingParses = Map.empty, parseDebounceMs = 500,
        ongoingParses = {}\<rparr>, console = []\<rparr>)) = Some \<lparr>fileParsers = Map.empty, includeResolver = IncludeResolver ''/ws'' [''/inc''] 3,
        workspaceRoot = ''/ws'', pendingParses = Map.empty, parseDebounceMs = 500,
        ongoingParses = {}\<rparr> \<and>
   console (snd (getInstance (Some ''/other'') None (Some 5) \<lparr>instance_field = Some \<lparr>fileParsers = Map.empty, includeResolver = IncludeResolver ''/ws'' [''/inc''] 3,
        workspaceRoot = ''/ws'', pendingParses = Map.empty, parseDebounceMs = 500,
        ongoingParses = {}\<rparr>, console = []\<rparr>)) = [getInstance_warning] \<and>
   new_MapTrackingService (Some ''/other'') None (Some 5) \<lparr>instance_field = Some \<lparr>fileParsers = Map.empty, includeResolver = IncludeResolver ''/ws'' [''/inc''] 3,
        workspaceRoot = ''/ws'', pendingParses = Map.empty, parseDebounceMs = 500,
        ongoingParses = {}\<rparr>, console = []\<rparr> = (\<lparr>fileParsers = Map.empty, includeResolver = IncludeResolver ''/ws'' [''/inc''] 3,
        workspaceRoot = ''/ws'', pendingParses = Map.empty, parseDebounceMs = 500,
        ongoingParses = {}\<rparr>, \<lparr>instance_field = Some \<lparr>fileParsers = Map.empty, includeResolver = IncludeResolver ''/ws'' [''/inc''] 3,
        workspaceRoot = ''/ws'', pendingParses = Map.empty, parseDebounceMs = 500,
        ongoingParses = {}\<rparr>, console = []\<rparr>)"
proof -
  let ?s = "\<lparr>fileParsers = Map.empty, includeResolver = IncludeResolver ''/ws'' [''/inc''] 3,
        workspaceRoot = ''/ws'', pendingParses = Map.empty, parseDebounceMs = 500,
        ongoingParses = {}\<rparr>"
  let ?w = "\<lparr>instance_field = Some \<lparr>fileParsers = Map.empty, includeResolver = IncludeResolver ''/ws'' [''/inc''] 3,
        workspaceRoot = ''/ws'', pendingParses = Map.empty, parseDebounceMs = 500,
        ongoingParses = {}\<rparr>, console = []\<rparr>"
  have h: "instance_field ?w = Some ?s" by simp
  have n: "new_MapTrackingService (Some ''/ws'') (Some [''/inc'']) (Some 3)
     \<lparr>instance_field = None, console = []\<rparr> = (?s, ?w)"
    by (simp add: new_MapTrackingService_def default_arg_def Let_def)
  have c: "console (snd (getInstance (Some ''/other'') None (Some 5) ?w)) = [getInstance_warning]"
    by (simp add: getInstance_def IncludeResolver_def)
  from singleton_configuration_kept [OF h, of "Some ''/other''" None "Some 5"] n c
  show ?thesis by blast
qed

section \<open>Properties of the workspace symbols\<close>

lemma results_set_new: "k \<notin> fst ` set m \<Longrightarrow> results_set m k v = m @ [(k, v)]"
  by (simp add: results_set_def)

lemma map_filter_process_file_keys:
  "fst ` set (List.map_filter (process_file symbols_of) fs) \<subseteq> set fs"
  by (induction fs) (auto simp: List.map_filter_simps process_file_def split: option.splits)

lemma fold_add_batch_result:
  "distinct batch \<Longrightarrow> set batch \<inter> fst ` set results = {} \<Longrightarrow>
   fold add_batch_result (map (process_file symbols_of) batch) results =
     results @ List.map_filter (process_file symbols_of) batch"
proof (induction batch arbitrary: results)
  case Nil
  then show ?case by (simp add: List.map_filter_simps)
next
  case (Cons f fs)
  show ?case
  proof (cases "symbols_of f")
    case None
    with Cons show ?thesis
      by (simp add: List.map_filter_simps process_file_def add_batch_result_def)
  next
    case (Some symbols)
    from Cons.prems have new: "f \<notin> fst ` set results" by auto
    from Cons.prems have "set fs \<inter> fst ` set (results @ [(f, symbols)]) = {}" by auto
    with Cons.IH [of "results @ [(f, symbols)]"] Cons.prems(1) Some new show ?thesis
      by (simp add: List.map_filter_simps process_file_def add_batch_result_def results_set_new)
  qed
qed

lemma map_filter_append:
  "List.map_filter f (xs @ ys) = List.map_filter f xs @ List.map_filter f ys"
  by (simp add: List.map_filter_def)

lemma processBatch_from_all:
  assumes "0 < batchSize" and "\<forall>j. \<not> cancelled j" and "distinct files"
  shows "results = List.map_filter (process_file symbols_of) (take i files) \<Longrightarrow>
         processBatch_from symbols_of cancelled files batchSize i results =
           Some (List.map_filter (process_file symbols_of) files)"
proof (induction "length files - i" arbitrary: i results rule: less_induct)
  case less
  show ?case
  proof (cases "i < length files")
    case False
    with less.prems show ?thesis
      by (subst processBatch_from.simps) simp
  next
    case True
    let ?batch = "take batchSize (drop i files)"
    have d: "distinct ?batch" using assms(3) by simp
    have "set ?batch \<inter> set (take i files) = {}"
      using assms(3) by (metis distinct_append append_take_drop_id set_take_subset
          disjoint_iff inf_commute subsetD)
    with map_filter_process_file_keys [of symbols_of "take i files"] less.prems
    have disj: "set ?batch \<inter> fst ` set results = {}" by auto
    have t: "take i files @ ?batch = take (i + batchSize) files"
      by (simp add: take_add)
    have r: "fold add_batch_result (map (process_file symbols_of) ?batch) results =
             List.map_filter (process_file symbols_of) (take (i + batchSize) files)"
      using fold_add_batch_result [OF d disj, of symbols_of] less.prems t
      by (simp add: map_filter_append [symmetric])
    have "length files - (i + batchSize) < length files - i"
      using True assms(1) by simp
    from less.hyps [OF this r] True assms(2) show ?thesis
      by (subst processBatch_from.simps) simp
  qed
qed

lemma processBatch_all:
  assumes "0 < batchSize" and "\<forall>j. \<not> cancelled j" and "distinct files"
  shows "processBatch symbols_of cancelled files batchSize =
           Some (List.map_filter (process_file symbols_of) files)"
  unfolding processBatch_def
  by (rule processBatch_from_all [OF assms]) (simp add: List.map_filter_simps)


lemma map_filter_process_file_fst:
  "map fst (List.map_filter (process_file symbols_of) fs) = filter (\<lambda>f. symbols_of f \<noteq> None) fs"
  by (induction fs) (auto simp: List.map_filter_simps process_file_def split: option.splits)

text \<open>
  Claim C9, as the code has it.  With \<open>N\<close> distinct matching files and a maximum \<open>M < N\<close>,
  a batch size of at least 1 and no cancellation requested, \<^verbatim>\<open>getWorkspaceSymbols\<close> shows
  exactly one truncation warning and returns the map that holds, in order, the symbols of
  those of the first \<open>M\<close> files whose document can be opened and read for symbols: of all of
  the first \<open>M\<close> files when none fails, and of no file beyond them.
\<close>

theorem truncated_workspace_symbols:
  assumes "maxFiles < length workspaceScripts" and "distinct workspaceScripts"
    and "0 < batchSize" and "\<forall>j. \<not> cancelled j"
  shows "\<exists>results.
           getWorkspaceSymbols symbols_of cancelled maxFiles batchSize workspaceScripts =
             ([TruncationWarning maxFiles (length workspaceScripts)], Some results) \<and>
           results = List.map_filter (process_file symbols_of) (take maxFiles workspaceScripts) \<and>
           map fst results =
             filter (\<lambda>f. symbols_of f \<noteq> None) (take maxFiles workspaceScripts) \<and>
           ((\<forall>f \<in> set (take maxFiles workspaceScripts). symbols_of f \<noteq> None) \<longrightarrow>
              map fst results = take maxFiles workspaceScripts)"
proof -
  let ?r = "List.map_filter (process_file symbols_of) (take maxFiles workspaceScripts)"
  from assms(2) have "distinct (take maxFiles workspaceScripts)" by simp
  with assms(3,4)
  have "processBatch symbols_of cancelled (take maxFiles workspaceScripts) batchSize = Some ?r"
    by (rule processBatch_all)
  with assms(1)
  have "getWorkspaceSymbols symbols_of cancelled maxFiles batchSize workspaceScripts =
          ([TruncationWarning maxFiles (length workspaceScripts)], Some ?r)"
    by (simp add: getWorkspaceSymbols_def)
  moreover have "map fst ?r = filter (\<lambda>f. symbols_of f \<noteq> None) (take maxFiles workspaceScripts)"
    by (rule map_filter_process_file_fst)
  moreover have "(\<forall>f \<in> set (take maxFiles workspaceScripts). symbols_of f \<noteq> None) \<longrightarrow>
      filter (\<lambda>f. symbols_of f \<noteq> None) (take maxFiles workspaceScripts) =
        take maxFiles workspaceScripts"
    by simp
  ultimately show ?thesis by simp
qed

text \<open>Three files, a maximum of two, batches of one file.\<close>

theorem truncated_workspace_symbols_witness:
  "(2::nat) < length [''a.au3'', ''b.au3'', ''c.au3''] \<and>
   distinct [''a.au3'', ''b.au3'', ''c.au3''] \<and>
   getWorkspaceSymbols (\<lambda>f. Some [f @ ''#main'']) (\<lambda>j. False) 2 1
     [''a.au3'', ''b.au3'', ''c.au3''] =
     ([TruncationWarning 2 3],
      Some [(''a.au3'', [''a.au3#main'']), (''b.au3'', [''b.au3#main''])])"
proof -
  have l: "(2::nat) < length [''a.au3'', ''b.au3'', ''c.au3'']" by simp
  have d: "distinct [''a.au3'', ''b.au3'', ''c.au3'']" by simp
  have b: "(0::nat) < 1" by simp
  have c: "\<forall>j::nat. \<not> (\<lambda>j. False) j" by simp
  have m: "List.map_filter (process_file (\<lambda>f. Some [f @ ''#main'']))
             (take 2 [''a.au3'', ''b.au3'', ''c.au3'']) =
           [(''a.au3'', [''a.au3#main'']), (''b.au3'', [''b.au3#main''])]"
    by (simp add: List.map_filter_simps process_file_def)
  from truncated_workspace_symbols [OF l d b c, of "\<lambda>f. Some [f @ ''#main'']"] m l d
  show ?thesis by simp
qed

text \<open>
  The claim as it is written promises the symbols of all of the first \<open>M\<close> files.  A file
  that cannot be opened is skipped by the \<^verbatim>\<open>catch\<close> of its \<^verbatim>\<open>try\<close> block, and a
  cancellation stops the loop before the next batch: with two files and a maximum of one,
  the map returned is empty when the first file fails, and when cancellation is requested.
\<close>

theorem truncated_workspace_symbols_counterexample:
  "getWorkspaceSymbols (\<lambda>f. if f = ''a.au3'' then None else Some [f @ ''#main'']) (\<lambda>j. False)
     1 10 [''a.au3'', ''b.au3''] = ([TruncationWarning 1 2], Some []) \<and>
   getWorkspaceSymbols (\<lambda>f. Some [f @ ''#main'']) (\<lambda>j. True)
     1 10 [''a.au3'', ''b.au3''] = ([TruncationWarning 1 2], Some [])"
proof
  have "processBatch (\<lambda>f. if f = ''a.au3'' then None else Some [f @ ''#main'']) (\<lambda>j. False)
          [''a.au3''] 10 =
        Some (List.map_filter (process_file (\<lambda>f. if f = ''a.au3'' then None else Some [f @ ''#main'']))
                [''a.au3''])"
    by (rule processBatch_all) simp_all
  then show "getWorkspaceSymbols (\<lambda>f. if f = ''a.au3'' then None else Some [f @ ''#main''])
      (\<lambda>j. False) 1 10 [''a.au3'', ''b.au3''] = ([TruncationWarning 1 2], Some [])"
    by (simp add: getWorkspaceSymbols_def List.map_filter_simps process_file_def)
  show "getWorkspaceSymbols (\<lambda>f. Some [f @ ''#main'']) (\<lambda>j. True)
     1 10 [''a.au3'', ''b.au3''] = ([TruncationWarning 1 2], Some [])"
    by (simp add: getWorkspaceSymbols_def processBatch_def processBatch_from.simps)
qed

subsection \<open>Queries through the includes\<close>

lemma set_fold_set_add: "set (fold (\<lambda>key s. set_add s key) xs s) = set s \<union> set xs"
  by (induction xs arbitrary: s) (auto simp: set_add_def)

lemma distinct_fold_set_add: "distinct s \<Longrightarrow> distinct (fold (\<lambda>key s. set_add s key) xs s)"
  by (induction xs arbitrary: s) (auto simp: set_add_def)


subsection \<open>A query at the end of the file\<close>

lemma map_filter_enumerate_bound:
  "d \<in> set (List.map_filter decl_of_line (List.enumerate n ls)) \<Longrightarrow> decl_line d < n + length ls"
proof (induction ls arbitrary: n)
  case Nil
  then show ?case by (simp add: List.map_filter_simps)
next
  case (Cons l ls)
  from Cons.prems Cons.IH [of "Suc n"] show ?case
    by (auto simp: List.map_filter_simps decl_of_line_def split: option.splits if_splits)
qed

lemma parseMapDeclarations_bound:
  "d \<in> set (parseMapDeclarations lines) \<Longrightarrow> decl_line d < length lines"
  using map_filter_enumerate_bound [of d 0 lines] by (simp add: parseMapDeclarations_def)

lemma parseFunctionBoundaries_bound:
  "f \<in> set (parseFunctionBoundaries lines) \<Longrightarrow> f_endLine f < length lines"
proof -
  have "boundary_inv 0 (None, [])"
    by (simp add: boundary_inv_def disjoint_sorted_def)
  from fold_boundary_step_inv [OF this, of lines]
  have "list_all (\<lambda>f. f_endLine f < length lines) (parseFunctionBoundaries lines)"
    by (simp add: parseFunctionBoundaries_def boundary_inv_def)
  then show "f \<in> set (parseFunctionBoundaries lines) \<Longrightarrow> f_endLine f < length lines"
    by (simp add: list_all_iff)
qed

lemma getFunctionAtLine_beyond:
  "enat (length lines) \<le> t \<Longrightarrow> getFunctionAtLine lines t = None"
proof (rule ccontr)
  assume t: "enat (length lines) \<le> t" and "getFunctionAtLine lines t \<noteq> None"
  then obtain f where "getFunctionAtLine lines t = Some f" by blast
  then have f: "f \<in> set (parseFunctionBoundaries lines)" and "contains_line f t"
    by (simp_all add: getFunctionAtLine_Some)
  then have "t \<le> enat (f_endLine f)" by (simp add: contains_line_def)
  with t have "length lines \<le> f_endLine f" by (meson enat_ord_simps(1) order_trans)
  with parseFunctionBoundaries_bound [OF f] show False by simp
qed

lemma line_assignments_line:
  "a \<in> set (line_assignments mapName (index, line)) \<Longrightarrow> a_line a = index"
  by (auto simp: line_assignments_def Let_def parseDynamicKeysFromLine_def
        split: if_splits option.splits)

lemma line_assignments_enumerate_bound:
  "a \<in> set (concat (map (line_assignments mapName) (List.enumerate n ls))) \<Longrightarrow>
   a_line a < n + length ls"
proof (induction ls arbitrary: n)
  case Nil
  then show ?case by simp
next
  case (Cons l ls)
  from Cons.prems consider "a \<in> set (line_assignments mapName (n, l))"
    | "a \<in> set (concat (map (line_assignments mapName) (List.enumerate (Suc n) ls)))"
    by auto
  then show ?case
  proof cases
    case 1
    then show ?thesis by (simp add: line_assignments_line)
  next
    case 2
    from Cons.IH [OF this] show ?thesis by simp
  qed
qed

lemma parseKeyAssignments_bound:
  "parseKeyAssignments lines mapName = Inr as \<Longrightarrow> a \<in> set as \<Longrightarrow> a_line a < length lines"
  using line_assignments_enumerate_bound [of a mapName 0 lines]
  by (auto simp: parseKeyAssignments_def split: if_splits)

lemma fold_closest_step_top_level:
  assumes "getFunctionAtLine lines t = None"
  shows "sorted_wrt (\<lambda>a b. decl_line a < decl_line b) ds \<Longrightarrow>
         \<forall>d \<in> set ds. m \<le> decl_line d \<and> enat (decl_line d) \<le> t \<Longrightarrow>
         dist_bound t st m \<Longrightarrow>
         fst (fold (closest_step lines mapName t) ds st) =
           fold (top_level_step lines mapName) ds (fst st)"
proof (induction ds arbitrary: st m)
  case Nil
  then show ?case by simp
next
  case (Cons d ds)
  obtain c dist where st: "st = (c, dist)" by (cases st)
  from Cons.prems(2) have le: "enat (decl_line d) \<le> t" and m: "m \<le> decl_line d" by simp_all
  with Cons.prems(3) st have close: "t - enat (decl_line d) \<le> dist"
    by (simp add: dist_bound_def)
  from le have nl: "\<not> t < enat (decl_line d)" by (simp add: not_less)
  let ?st = "closest_step lines mapName t d st"
  have step: "?st = (if toLowerCase (decl_name d) = toLowerCase mapName \<and>
                        getFunctionAtLine lines (enat (decl_line d)) = None
                     then (Some d, t - enat (decl_line d)) else st)"
    using assms close nl st by (auto simp: closest_step_def Let_def split: option.splits)
  have fst_step: "fst ?st = top_level_step lines mapName d (fst st)"
    by (simp add: step top_level_step_def)
  have bound: "dist_bound t ?st (decl_line d)"
  proof (cases "?st = st")
    case True
    with Cons.prems(3) m show ?thesis by (auto simp: dist_bound_def)
  next
    case False
    with step have "snd ?st = t - enat (decl_line d)" by (auto split: if_splits)
    then show ?thesis by (simp add: dist_bound_def enat_diff_mono)
  qed
  from Cons.prems(1) have sorted: "sorted_wrt (\<lambda>a b. decl_line a < decl_line b) ds"
    and later: "\<forall>e \<in> set ds. decl_line d < decl_line e" by simp_all
  from later Cons.prems(2) have rest: "\<forall>e \<in> set ds. decl_line d \<le> decl_line e \<and> enat (decl_line e) \<le> t"
    by (auto intro: less_imp_le)
  from Cons.IH [OF sorted rest bound] fst_step show ?case by simp
qed

lemma closestDeclaration_top_level:
  assumes "enat (length lines) \<le> t"
  shows "closestDeclaration lines mapName t =
           fold (top_level_step lines mapName) (parseMapDeclarations lines) None"
proof -
  have none: "getFunctionAtLine lines t = None" using assms by (rule getFunctionAtLine_beyond)
  have all: "\<forall>d \<in> set (parseMapDeclarations lines). 0 \<le> decl_line d \<and> enat (decl_line d) \<le> t"
  proof
    fix d assume "d \<in> set (parseMapDeclarations lines)"
    then have "enat (decl_line d) \<le> enat (length lines)"
      by (simp add: parseMapDeclarations_bound less_imp_le)
    from this assms have "enat (decl_line d) \<le> t" by (rule order_trans)
    then show "0 \<le> decl_line d \<and> enat (decl_line d) \<le> t" by simp
  qed
  have "dist_bound t (None, \<infinity>) 0" by (simp add: dist_bound_def)
  from fold_closest_step_top_level [OF none parseMapDeclarations_sorted all this]
  show ?thesis by (simp add: closestDeclaration_def)
qed

lemma valid_key_step_beyond:
  assumes "enat (length lines) \<le> t" and "a_line a < length lines"
  shows "valid_key_step lines t decl a ks =
           (if getFunctionAtLine lines (enat (a_line a)) = None then set_add ks (a_key a) else ks)"
proof -
  from assms have "enat (a_line a) < t"
    by (meson enat_ord_simps(2) less_le_trans)
  then have "\<not> t \<le> enat (a_line a)" by (simp add: not_le)
  with getFunctionAtLine_beyond [OF assms(1)] show ?thesis
    by (simp add: valid_key_step_def split: option.splits)
qed

lemma fold_cong_set: "\<forall>x \<in> set xs. f x = g x \<Longrightarrow> fold f xs s = fold g xs s"
  by (induction xs arbitrary: s) simp_all

lemma fold_err_cong_set: "\<forall>x \<in> set xs. f x = g x \<Longrightarrow> fold_err f xs s = fold_err g xs s"
  by (induction xs arbitrary: s) (simp_all split: sum.splits)

lemma call_keys_step_beyond:
  assumes "enat (length lines) \<le> t" and "x \<in> set (List.enumerate 0 lines)"
  shows "call_keys_step lines mapName t x = call_keys_step lines mapName \<infinity> x"
proof -
  obtain index line where x: "x = (index, line)" by (cases x)
  with assms(2) have "index < length lines" by (auto simp: in_set_enumerate_eq)
  with assms(1) have "enat index < t" by (meson enat_ord_simps(2) less_le_trans)
  then have "\<not> t \<le> enat index" by (simp add: not_le)
  with x show ?thesis by (simp add: call_keys_step_def)
qed

lemma getKeysFromFunctionCalls_beyond:
  assumes "enat (length lines) \<le> t"
  shows "getKeysFromFunctionCalls lines mapName t = getKeysFromFunctionCalls lines mapName \<infinity>"
proof -
  have "fold_err (call_keys_step lines mapName t) (List.enumerate 0 lines) ([], []) =
        fold_err (call_keys_step lines mapName \<infinity>) (List.enumerate 0 lines) ([], [])"
    by (rule fold_err_cong_set) (simp add: call_keys_step_beyond [OF assms])
  then show ?thesis by (simp add: getKeysFromFunctionCalls_def)
qed

text \<open>A query at \<^verbatim>\<open>Infinity\<close> is a query at the end of the file.\<close>

lemma getKeysForMapAtLine_beyond:
  assumes "enat (length lines) \<le> t"
  shows "getKeysForMapAtLine lines mapName t includeFunctionKeys =
         getKeysForMapAtLine lines mapName \<infinity> includeFunctionKeys"
proof -
  have c: "closestDeclaration lines mapName t = closestDeclaration lines mapName \<infinity>"
    using assms by (simp add: closestDeclaration_top_level)
  have k: "getKeysFromFunctionCalls lines mapName t = getKeysFromFunctionCalls lines mapName \<infinity>"
    using assms by (rule getKeysFromFunctionCalls_beyond)
  have v: "fold (valid_key_step lines t decl) as [] = fold (valid_key_step lines \<infinity> decl) as []"
    if "parseKeyAssignments lines mapName = Inr as" for as decl
  proof (rule fold_cong_set, intro ballI ext)
    fix a ks assume "a \<in> set as"
    with that have "a_line a < length lines" by (rule parseKeyAssignments_bound)
    with assms show "valid_key_step lines t decl a ks = valid_key_step lines \<infinity> decl a ks"
      by (simp add: valid_key_step_beyond)
  qed
  show ?thesis
    by (simp add: getKeysForMapAtLine_def Let_def c k v split: option.splits sum.splits)
qed


subsection \<open>The merge of the included files\<close>

lemma keys_at_end_query:
  assumes "getKeysForMapAtLine lines mapName \<infinity> True = Inr ks"
  shows "keys_at_end (Some lines) mapName = ks"
proof -
  have "getKeysForMapAtLine lines mapName (enat (length lines)) True =
        getKeysForMapAtLine lines mapName \<infinity> True"
    by (rule getKeysForMapAtLine_beyond) simp
  with assms show ?thesis by (simp add: keys_at_end_def)
qed

lemma include_step_result:
  assumes "query_returns (parser_of this readFile f) mapName"
  shows "\<exists>this'. include_step readFile mapName f (this, logged, dk, fk) =
           Inr (this',
                logged @ (if parser_of this readFile f = None then [read_warning f] else []),
                fold (\<lambda>key s. set_add s key)
                  (directKeys (keys_at_end (parser_of this readFile f) mapName)) dk,
                fk @ functionKeys (keys_at_end (parser_of this readFile f) mapName)) \<and>
           (\<forall>g. parser_of this' readFile g = parser_of this readFile g)"
proof (cases "fileParsers this f")
  case (Some p)
  with assms obtain ks where ks: "getKeysForMapAtLine p mapName \<infinity> True = Inr ks"
    by (auto simp: query_returns_def parser_of_def split: sum.splits)
  from keys_at_end_query [OF ks] Some ks show ?thesis
    by (simp add: include_step_def getKeysForMap_def parser_of_def)
next
  case None
  show ?thesis
  proof (cases "readFile f")
    case no: None
    with None show ?thesis
      by (simp add: include_step_def parser_of_def keys_at_end_def)
  next
    case (Some source)
    let ?svc = "updateFile f source this"
    from None Some assms obtain ks
      where ks: "getKeysForMapAtLine (MapParser source) mapName \<infinity> True = Inr ks"
      by (auto simp: query_returns_def parser_of_def split: sum.splits)
    have same: "\<forall>g. parser_of ?svc readFile g = parser_of this readFile g"
      using None Some by (simp add: parser_of_def updateFile_def)
    from keys_at_end_query [OF ks] None Some ks same show ?thesis
      by (simp add: include_step_def getKeysForMap_def parser_of_def updateFile_def)
  qed
qed

lemma fold_include_step:
  "\<forall>f \<in> set fs. query_returns (parser_of this readFile f) mapName \<Longrightarrow>
   \<exists>this'. fold_err (include_step readFile mapName) fs (this, logged, dk, fk) =
     Inr (this',
          logged @ map read_warning (filter (\<lambda>f. parser_of this readFile f = None) fs),
          fold (\<lambda>key s. set_add s key)
            (concat (map (\<lambda>f. directKeys (keys_at_end (parser_of this readFile f) mapName)) fs)) dk,
          fk @ concat (map (\<lambda>f. functionKeys (keys_at_end (parser_of this readFile f) mapName)) fs))"
proof (induction fs arbitrary: this logged dk fk)
  case Nil
  then show ?case by simp
next
  case (Cons f fs)
  from Cons.prems have "query_returns (parser_of this readFile f) mapName" by simp
  from include_step_result [OF this, of logged dk fk] obtain this1
    where step: "include_step readFile mapName f (this, logged, dk, fk) =
           Inr (this1,
                logged @ (if parser_of this readFile f = None then [read_warning f] else []),
                fold (\<lambda>key s. set_add s key)
                  (directKeys (keys_at_end (parser_of this readFile f) mapName)) dk,
                fk @ functionKeys (keys_at_end (parser_of this readFile f) mapName))"
      and same: "\<forall>g. parser_of this1 readFile g = parser_of this readFile g"
    by blast
  from Cons.prems same have "\<forall>g \<in> set fs. query_returns (parser_of this1 readFile g) mapName"
    by simp
  from Cons.IH [OF this,
      of "logged @ (if parser_of this readFile f = None then [read_warning f] else [])"
         "fold (\<lambda>key s. set_add s key)
            (directKeys (keys_at_end (parser_of this readFile f) mapName)) dk"
         "fk @ functionKeys (keys_at_end (parser_of this readFile f) mapName)"]
  obtain this2 where "fold_err (include_step readFile mapName) fs
      (this1, logged @ (if parser_of this readFile f = None then [read_warning f] else []),
       fold (\<lambda>key s. set_add s key)
         (directKeys (keys_at_end (parser_of this readFile f) mapName)) dk,
       fk @ functionKeys (keys_at_end (parser_of this readFile f) mapName)) =
     Inr (this2,
          (logged @ (if parser_of this readFile f = None then [read_warning f] else [])) @
            map read_warning (filter (\<lambda>f. parser_of this1 readFile f = None) fs),
          fold (\<lambda>key s. set_add s key)
            (concat (map (\<lambda>f. directKeys (keys_at_end (parser_of this1 readFile f) mapName)) fs))
            (fold (\<lambda>key s. set_add s key)
               (directKeys (keys_at_end (parser_of this readFile f) mapName)) dk),
          (fk @ functionKeys (keys_at_end (parser_of this readFile f) mapName)) @
            concat (map (\<lambda>f. functionKeys (keys_at_end (parser_of this1 readFile f) mapName)) fs))"
    by blast
  with same step have "fold_err (include_step readFile mapName) (f # fs) (this, logged, dk, fk) =
     Inr (this2,
          logged @ map read_warning (filter (\<lambda>f. parser_of this readFile f = None) (f # fs)),
          fold (\<lambda>key s. set_add s key)
            (concat (map (\<lambda>f. directKeys (keys_at_end (parser_of this readFile f) mapName))
                       (f # fs))) dk,
          fk @ concat (map (\<lambda>f. functionKeys (keys_at_end (parser_of this readFile f) mapName))
                         (f # fs)))"
    by simp
  then show ?case by blast
qed


text \<open>
  Claim C7.  When the query of the file itself returns \<open>currentKeys\<close> and the query of no
  included file raises, \<^verbatim>\<open>getKeysForMapWithIncludes\<close> returns a result; one warning is
  written for each included file that is neither cached nor readable, in order, and that
  file adds nothing; \<^verbatim>\<open>directKeys\<close> is the keys of the file followed by the keys of the
  included files, each queried at its end, with every key kept once at its first place, so
  as a set it is the union; and \<^verbatim>\<open>functionKeys\<close> is the concatenation, duplicates kept.
\<close>

theorem getKeysForMapWithIncludes_merge:
  assumes "getKeysForMap this filePath mapName line = Inr currentKeys"
    and "\<forall>f \<in> set includedFiles. query_returns (parser_of this readFile f) mapName"
  shows "\<exists>res this' logged'.
           getKeysForMapWithIncludes readFile includedFiles filePath mapName line (this, logged) =
             Inr (res, this', logged') \<and>
           logged' = logged @ map read_warning
                       (filter (\<lambda>f. parser_of this readFile f = None) includedFiles) \<and>
           directKeys res =
             fold (\<lambda>key s. set_add s key)
               (directKeys currentKeys @
                concat (map (\<lambda>f. directKeys (keys_at_end (parser_of this readFile f) mapName))
                          includedFiles)) [] \<and>
           set (directKeys res) =
             set (directKeys currentKeys) \<union>
             (\<Union>f \<in> set includedFiles.
                set (directKeys (keys_at_end (parser_of this readFile f) mapName))) \<and>
           distinct (directKeys res) \<and>
           functionKeys res =
             functionKeys currentKeys @
             concat (map (\<lambda>f. functionKeys (keys_at_end (parser_of this readFile f) mapName))
                       includedFiles)"
proof -
  let ?first = "fold (\<lambda>key s. set_add s key) (directKeys currentKeys) []"
  let ?inc = "concat (map (\<lambda>f. directKeys (keys_at_end (parser_of this readFile f) mapName))
                        includedFiles)"
  let ?dk = "fold (\<lambda>key s. set_add s key) ?inc ?first"
  let ?fk = "functionKeys currentKeys @
             concat (map (\<lambda>f. functionKeys (keys_at_end (parser_of this readFile f) mapName))
                       includedFiles)"
  let ?out = "logged @ map read_warning
                (filter (\<lambda>f. parser_of this readFile f = None) includedFiles)"
  from fold_include_step [OF assms(2), where logged = logged and dk = ?first
      and fk = "functionKeys currentKeys"]
  obtain this' where loop: "fold_err (include_step readFile mapName) includedFiles
      (this, logged, ?first, functionKeys currentKeys) = Inr (this', ?out, ?dk, ?fk)"
    by blast
  with assms(1) have r: "getKeysForMapWithIncludes readFile includedFiles filePath mapName line
      (this, logged) = Inr (\<lparr>directKeys = ?dk, functionKeys = ?fk\<rparr>, this', ?out)"
    unfolding getKeysForMapWithIncludes_def by simp
  have e: "?dk = fold (\<lambda>key s. set_add s key) (directKeys currentKeys @ ?inc) []"
    by simp
  have u: "set ?dk = set (directKeys currentKeys) \<union>
      (\<Union>f \<in> set includedFiles.
         set (directKeys (keys_at_end (parser_of this readFile f) mapName)))"
    by (simp only: set_fold_set_add set_concat set_map image_image list.set Un_empty_left UN_simps)
  have d: "distinct ?dk" by (intro distinct_fold_set_add) simp
  show ?thesis
  proof (intro exI conjI)
    show "getKeysForMapWithIncludes readFile includedFiles filePath mapName line (this, logged) =
            Inr (\<lparr>directKeys = ?dk, functionKeys = ?fk\<rparr>, this', ?out)"
      by (rule r)
    show "?out = ?out" by (rule refl)
    show "directKeys \<lparr>directKeys = ?dk, functionKeys = ?fk\<rparr> =
        fold (\<lambda>key s. set_add s key) (directKeys currentKeys @ ?inc) []"
      using e by simp
    show "set (directKeys \<lparr>directKeys = ?dk, functionKeys = ?fk\<rparr>) =
        set (directKeys currentKeys) \<union>
        (\<Union>f \<in> set includedFiles.
           set (directKeys (keys_at_end (parser_of this readFile f) mapName)))"
      using u by simp
    show "distinct (directKeys \<lparr>directKeys = ?dk, functionKeys = ?fk\<rparr>)"
      using d by simp
    show "functionKeys \<lparr>directKeys = ?dk, functionKeys = ?fk\<rparr> = ?fk"
      by simp
  qed
qed


text \<open>
  An instance: the file and \<^verbatim>\<open>lib1.au3\<close> are cached, \<^verbatim>\<open>gone.au3\<close> cannot be read and
  \<^verbatim>\<open>lib2.au3\<close> is read from the disk.
\<close>

theorem getKeysForMapWithIncludes_merge_witness:
  "getKeysForMap \<lparr>fileParsers = Map.empty(''/w/main.au3'' \<mapsto> [''Global $m[]'', ''$m.a = 1'', ''''],
                      ''/w/lib1.au3'' \<mapsto> [''Global $m[]'', ''$m.b = 2'', ''$m.a = 3'']),
       includeResolver = IncludeResolver ''/w'' [] 3, workspaceRoot = ''/w'',
       pendingParses = Map.empty, parseDebounceMs = 500, ongoingParses = {}\<rparr> ''/w/main.au3'' ''$m'' 3 =
     Inr \<lparr>directKeys = [''a''], functionKeys = []\<rparr> \<and>
   list_all (\<lambda>f. query_returns (parser_of \<lparr>fileParsers = Map.empty(''/w/main.au3'' \<mapsto> [''Global $m[]'', ''$m.a = 1'', ''''],
                      ''/w/lib1.au3'' \<mapsto> [''Global $m[]'', ''$m.b = 2'', ''$m.a = 3'']),
       includeResolver = IncludeResolver ''/w'' [] 3, workspaceRoot = ''/w'',
       pendingParses = Map.empty, parseDebounceMs = 500, ongoingParses = {}\<rparr> (\<lambda>f. if f = ''/w/lib2.au3'' then Some ''Global $m[]\<newline>$m.c = 4'' else None) f) ''$m'') [''/w/lib1.au3'', ''/w/gone.au3'', ''/w/lib2.au3''] \<and>
   (case getKeysForMapWithIncludes (\<lambda>f. if f = ''/w/lib2.au3'' then Some ''Global $m[]\<newline>$m.c = 4'' else None) [''/w/lib1.au3'', ''/w/gone.au3'', ''/w/lib2.au3''] ''/w/main.au3'' ''$m'' 3 (\<lparr>fileParsers = Map.empty(''/w/main.au3'' \<mapsto> [''Global $m[]'', ''$m.a = 1'', ''''],
                      ''/w/lib1.au3'' \<mapsto> [''Global $m[]'', ''$m.b = 2'', ''$m.a = 3'']),
       includeResolver = IncludeResolver ''/w'' [] 3, workspaceRoot = ''/w'',
       pendingParses = Map.empty, parseDebounceMs = 500, ongoingParses = {}\<rparr>, []) of
      Inl e \<Rightarrow> False
    | Inr (res, this', logged') \<Rightarrow>
        res = \<lparr>directKeys = [''a'', ''b'', ''c''], functionKeys = []\<rparr> \<and>
        logged' = [read_warning ''/w/gone.au3''])"
proof -
  let ?svc = "\<lparr>fileParsers = Map.empty(''/w/main.au3'' \<mapsto> [''Global $m[]'', ''$m.a = 1'', ''''],
                      ''/w/lib1.au3'' \<mapsto> [''Global $m[]'', ''$m.b = 2'', ''$m.a = 3'']),
       includeResolver = IncludeResolver ''/w'' [] 3, workspaceRoot = ''/w'',
       pendingParses = Map.empty, parseDebounceMs = 500, ongoingParses = {}\<rparr>"
  let ?rf = "(\<lambda>f. if f = ''/w/lib2.au3'' then Some ''Global $m[]\<newline>$m.c = 4'' else None)"
  have q0: "getKeysForMapAtLine [''Global $m[]'', ''$m.a = 1'', ''''] ''$m'' 3 True =
      Inr \<lparr>directKeys = [''a''], functionKeys = []\<rparr>"
    by code_simp
  have q1: "getKeysForMapAtLine [''Global $m[]'', ''$m.b = 2'', ''$m.a = 3''] ''$m'' \<infinity> True =
      Inr \<lparr>directKeys = [''b'', ''a''], functionKeys = []\<rparr>"
    by code_simp
  have q2: "getKeysForMapAtLine (MapParser ''Global $m[]\<newline>$m.c = 4'')
      ''$m'' \<infinity> True = Inr \<lparr>directKeys = [''c''], functionKeys = []\<rparr>"
    by code_simp
  note k1 = keys_at_end_query [OF q1]
  note k2 = keys_at_end_query [OF q2]
  have k0: "keys_at_end None ''$m'' = \<lparr>directKeys = [], functionKeys = []\<rparr>"
    by (simp add: keys_at_end_def)
  have p1: "parser_of ?svc ?rf ''/w/lib1.au3'' = Some [''Global $m[]'', ''$m.b = 2'', ''$m.a = 3'']"
    by (simp add: parser_of_def)
  have p2: "parser_of ?svc ?rf ''/w/lib2.au3'' =
      Some (MapParser ''Global $m[]\<newline>$m.c = 4'')"
    by (simp add: parser_of_def)
  have p3: "parser_of ?svc ?rf ''/w/gone.au3'' = None"
    by (simp add: parser_of_def)
  have cur: "getKeysForMap ?svc ''/w/main.au3'' ''$m'' 3 =
     Inr \<lparr>directKeys = [''a''], functionKeys = []\<rparr>"
    by (simp add: getKeysForMap_def q0)
  have ok: "list_all (\<lambda>f. query_returns (parser_of ?svc ?rf f) ''$m'') [''/w/lib1.au3'', ''/w/gone.au3'', ''/w/lib2.au3'']"
    by (simp add: p1 p2 p3 query_returns_def q1 q2)
  then have ok': "\<forall>f \<in> set [''/w/lib1.au3'', ''/w/gone.au3'', ''/w/lib2.au3'']. query_returns (parser_of ?svc ?rf f) ''$m''"
    by (simp only: list_all_iff)
  have w: "map read_warning (filter (\<lambda>f. parser_of ?svc ?rf f = None) [''/w/lib1.au3'', ''/w/gone.au3'', ''/w/lib2.au3'']) =
           [read_warning ''/w/gone.au3'']"
    by (simp add: p1 p2 p3)
  have d: "fold (\<lambda>key s. set_add s key)
             (directKeys \<lparr>directKeys = [''a''], functionKeys = []\<rparr> @
              concat (map (\<lambda>f. directKeys (keys_at_end (parser_of ?svc ?rf f) ''$m'')) [''/w/lib1.au3'', ''/w/gone.au3'', ''/w/lib2.au3''])) [] =
           [''a'', ''b'', ''c'']"
    by (simp add: p1 p2 p3 k1 k2 k0 set_add_def)
  have f: "functionKeys \<lparr>directKeys = [''a''], functionKeys = []\<rparr> @
             concat (map (\<lambda>f. functionKeys (keys_at_end (parser_of ?svc ?rf f) ''$m'')) [''/w/lib1.au3'', ''/w/gone.au3'', ''/w/lib2.au3'']) = []"
    by (simp add: p1 p2 p3 k1 k2 k0)
  from getKeysForMapWithIncludes_merge [OF cur ok', where logged = "[]"] w d f
  obtain res this' logged' where
    "getKeysForMapWithIncludes ?rf [''/w/lib1.au3'', ''/w/gone.au3'', ''/w/lib2.au3''] ''/w/main.au3'' ''$m'' 3 (?svc, []) = Inr (res, this', logged')"
    and "logged' = [read_warning ''/w/gone.au3'']"
    and "directKeys res = [''a'', ''b'', ''c'']" and "functionKeys res = []"
    by auto
  with cur ok show ?thesis by simp
qed


section \<open>Properties of a container with flat keys\<close>

subsection \<open>Letter case\<close>






lemma match_ci_first:
  "canonicalize p \<noteq> canonicalize c \<Longrightarrow> match_ci (p # ps) (c # cs) = None"
  by simp




subsection \<open>The pieces of a line\<close>




lemma is_space_simps [simp]:
  "\<not> is_space (CHR ''$'')" "\<not> is_space (CHR ''='')" "\<not> is_space (CHR ''['')"
  "\<not> is_space (CHR '']'')" "\<not> is_space (CHR ''.'')"
  by (simp_all add: is_space_def)

lemma is_word_simps [simp]:
  "\<not> is_word (CHR ''$'')" "\<not> is_word (CHR ''='')" "\<not> is_word (CHR ''['')"
  "\<not> is_word (CHR '']'')" "\<not> is_word (CHR ''.'')"
  by (simp_all add: is_word_def is_alpha_us_def is_digit_def)

lemma is_space_not_quote: "is_space c \<Longrightarrow> \<not> is_quote c"
  by (auto simp: is_space_def is_quote_def Let_def)


lemma skip_ws_first: "\<not> is_space c \<Longrightarrow> skip_ws (c # r) = c # r"
  by (simp add: skip_ws_def)









subsection \<open>A line that assigns a key\<close>

lemma canonicalize_dollar [simp]:
  "canonicalize (CHR ''$'') = 36" "canonicalize (CHR ''L'') = 76" "canonicalize (CHR ''G'') = 71"
  "canonicalize (CHR ''D'') = 68" "canonicalize (CHR ''S'') = 83" "canonicalize (CHR ''F'') = 70"
  "canonicalize (CHR ''E'') = 69"
  by (simp_all add: canonicalize_def)














subsection \<open>The line of the declaration\<close>









subsection \<open>The loops over the lines\<close>







text \<open>\<open>first_seen\<close> keeps every element once.\<close>

lemma first_seen_distinct: "distinct (first_seen xs) \<and> set (first_seen xs) = set xs"
  by (induction xs) (auto simp: distinct_removeAll)






subsection \<open>The keys of a query\<close>






end
